theory Spec2Isabelle
  imports Complex_Main
begin

section \<open>The signed Louvain modularity optimiser of Modularity.ipynb\<close>

text \<open>
  The notebook defines one function, \<open>modularity_louvain_und_sign(W, gamma, qtype, seed)\<close>.
  It is embedded here statement by statement.

  \<^item> numpy's float64 numbers are idealised as the reals: rounding, infinities and NaN are
    not modelled. The constant \<open>1e-10\<close> is the rational \<open>1 / 10 ^ 10\<close>.
  \<^item> A numpy vector is a list, an \<open>N\<times>N\<close> array is a list of \<open>N\<close> rows. Indexing is
    \<open>xs ! i\<close>; the properties below are stated for square matrices and for permutations
    with entries below their length, where every index the function uses is in range.
  \<^item> Community labels (\<open>np.arange(n) + 1\<close> and what is derived from it) are naturals.
  \<^item> A \<open>raise\<close> is a left injection into a sum type.
  \<^item> numpy's global random generator is explicit state that every function returns,
    also when it raises. The generator itself (the state a seed determines, and
    \<open>np.random.permutation\<close>) is library code and is a parameter of the model, the
    record \<open>np_random\<close>.
  \<^item> The local variables of the function are grouped in records: \<open>params\<close> (\<open>gamma\<close> and
    the constants fixed before the loops), \<open>level\<close> (what a level reads), \<open>modules\<close> (what
    the local-moving phase updates) and \<open>hier\<close> (what the hierarchy loop updates, but the
    index \<open>h\<close>, which is an argument of its own).
\<close>

type_synonym vec = "real list"
type_synonym mat = "real list list"

text \<open>
  The exceptions are Python's. The two statements \<open>raise BCTParamError('...')\<close> of the
  function name a class that the notebook neither defines nor imports (its imports are
  scipy, \<open>scipy.io\<close>, numpy and \<open>scipy.stats\<close>): evaluating the name raises \<open>NameError\<close>
  before any exception object with the message is built. \<open>NameError\<close> carries the name
  that is not defined.
\<close>

datatype error = KeyError string | NameError string | ValueError string

record 'r np_random =
  seed_state :: "int \<Rightarrow> 'r"
  permutation :: "'r \<Rightarrow> nat \<Rightarrow> nat list \<times> 'r"

record params =
  gamma :: real
  s0 :: real
  s1 :: real
  d0 :: real
  d1 :: real

record graph =
  W0 :: mat
  W1 :: mat

record level = graph +
  kn0 :: vec
  kn1 :: vec

record modules =
  m :: "nat list"
  km0 :: vec
  km1 :: vec
  knm0 :: mat
  knm1 :: mat

record hier = graph +
  nh :: nat
  ci :: "nat list option list"
  q :: "real list"

subsection \<open>The numpy operations the function uses\<close>

definition tol :: real where
  \<comment> \<open>\<open>1e-10\<close>\<close>
  "tol = 1 / 10000000000"

definition pos_part :: "mat \<Rightarrow> mat" where
  \<comment> \<open>\<open>W * (W > 0)\<close>\<close>
  "pos_part W = map (map (\<lambda>x. x * (if x > 0 then 1 else 0))) W"

definition neg_part :: "mat \<Rightarrow> mat" where
  \<comment> \<open>\<open>-W * (W < 0)\<close>\<close>
  "neg_part W = map (map (\<lambda>x. - x * (if x < 0 then 1 else 0))) W"

definition np_sum :: "mat \<Rightarrow> real" where
  "np_sum A = sum_list (map sum_list A)"

definition ncols :: "mat \<Rightarrow> nat" where
  "ncols A = (case A of [] \<Rightarrow> 0 | r # _ \<Rightarrow> length r)"

definition column :: "mat \<Rightarrow> nat \<Rightarrow> vec" where
  \<comment> \<open>\<open>A[:, j]\<close>\<close>
  "column A j = map (\<lambda>r. r ! j) A"

definition np_sum_axis0 :: "mat \<Rightarrow> vec" where
  \<comment> \<open>\<open>np.sum(A, axis=0)\<close>: the column sums\<close>
  "np_sum_axis0 A = map (\<lambda>j. sum_list (column A j)) [0..<ncols A]"

definition np_max :: "'a::linorder list \<Rightarrow> 'a" where
  \<comment> \<open>\<open>np.max\<close>. numpy raises ValueError on an empty array: \<open>level_finish\<close> tests for it
     where the function can reach it (\<open>nh = np.max(m)\<close> for \<open>n = 0\<close>); the vector \<open>dQ\<close> of a
     node has \<open>nh \<ge> 1\<close> entries\<close>
  "np_max xs = Max (set xs)"

fun index_of :: "'a \<Rightarrow> 'a list \<Rightarrow> nat" where
  "index_of x [] = 0"
| "index_of x (y # ys) = (if x = y then 0 else Suc (index_of x ys))"

definition np_argmax :: "'a::linorder list \<Rightarrow> nat" where
  \<comment> \<open>\<open>np.argmax\<close>: the first index that holds the maximum\<close>
  "np_argmax xs = index_of (np_max xs) xs"

definition np_arange1 :: "nat \<Rightarrow> nat list" where
  \<comment> \<open>\<open>np.arange(n) + 1\<close>\<close>
  "np_arange1 n = map Suc [0..<n]"

definition np_unique_inverse :: "nat list \<Rightarrow> nat list" where
  \<comment> \<open>the second result of \<open>np.unique(xs, return_inverse=True)\<close>: for every entry its
     index in the sorted array of the distinct values\<close>
  "np_unique_inverse xs = map (\<lambda>x. index_of x (sort (remdups xs))) xs"

definition renumber :: "nat list \<Rightarrow> nat list" where
  \<comment> \<open>\<open>_, m = np.unique(m, return_inverse=True); m += 1\<close>\<close>
  "renumber xs = map Suc (np_unique_inverse xs)"

definition np_trace :: "mat \<Rightarrow> real" where
  "np_trace A = sum_list (map (\<lambda>i. A ! i ! i) [0..<length A])"

definition np_dot :: "mat \<Rightarrow> mat \<Rightarrow> mat" where
  "np_dot A B = map (\<lambda>r. map (\<lambda>j. sum_list (map2 (*) r (column B j))) [0..<ncols B]) A"

definition vec_add :: "vec \<Rightarrow> nat \<Rightarrow> real \<Rightarrow> vec" where
  \<comment> \<open>\<open>v[i] += x\<close>\<close>
  "vec_add v i x = v[i := v ! i + x]"

definition vec_sub :: "vec \<Rightarrow> nat \<Rightarrow> real \<Rightarrow> vec" where
  \<comment> \<open>\<open>v[i] -= x\<close>\<close>
  "vec_sub v i x = v[i := v ! i - x]"

definition col_add :: "mat \<Rightarrow> nat \<Rightarrow> vec \<Rightarrow> mat" where
  \<comment> \<open>\<open>A[:, j] += c\<close>\<close>
  "col_add A j c = map2 (\<lambda>r x. r[j := r ! j + x]) A c"

definition col_sub :: "mat \<Rightarrow> nat \<Rightarrow> vec \<Rightarrow> mat" where
  \<comment> \<open>\<open>A[:, j] -= c\<close>\<close>
  "col_sub A j c = map2 (\<lambda>r x. r[j := r ! j - x]) A c"

definition mat_set :: "mat \<Rightarrow> nat \<Rightarrow> nat \<Rightarrow> real \<Rightarrow> mat" where
  \<comment> \<open>\<open>A[i, j] = x\<close>\<close>
  "mat_set A i j x = A[i := (A ! i)[j := x]]"

definition square :: "mat \<Rightarrow> bool" where
  \<comment> \<open>an \<open>N\<times>N\<close> array\<close>
  "square A = list_all (\<lambda>r. length r = length A) A"

subsection \<open>Seeding and the scaling constants\<close>

definition valid_seed :: "int option \<Rightarrow> bool" where
  \<comment> \<open>what \<open>np.random.seed\<close> accepts of the documented \<open>int | None\<close>: \<open>None\<close>, or an integer
     that fits 32 unsigned bits\<close>
  "valid_seed seed = (case seed of None \<Rightarrow> True | Some k \<Rightarrow> 0 \<le> k \<and> k < 4294967296)"

definition seeded :: "'r np_random \<Rightarrow> int option \<Rightarrow> 'r \<Rightarrow> 'r" where
  \<comment> \<open>the state of the generator after seeding: with a seed the state that seed
     determines, with \<open>None\<close> a state drawn from the operating system's entropy\<close>
  "seeded R seed entropy = (case seed of None \<Rightarrow> entropy | Some k \<Rightarrow> seed_state R k)"

definition np_random_seed ::
  "'r np_random \<Rightarrow> int option \<Rightarrow> 'r \<Rightarrow> 'r \<Rightarrow> (error + unit) \<times> 'r" where
  \<comment> \<open>\<open>np.random.seed(seed)\<close> on the global generator in state \<open>g\<close>: the previous state is
     overwritten, or numpy raises ValueError for an integer out of range (the text of
     the message depends on numpy's version)\<close>
  "np_random_seed R seed entropy g =
     (if valid_seed seed then (Inr (), seeded R seed entropy)
      else (Inl (ValueError ''Seed must be between 0 and 2**32 - 1''), g))"

definition qtype_scale :: "string \<Rightarrow> real \<Rightarrow> real \<Rightarrow> error + real \<times> real" where
  \<comment> \<open>the \<open>if qtype == ... elif ... else raise\<close> chain: \<open>(d0, d1)\<close>\<close>
  "qtype_scale qtype a b =
     (if qtype = ''smp'' then Inr (1 / a, 1 / b)
      else if qtype = ''gja'' then Inr (1 / (a + b), 1 / (a + b))
      else if qtype = ''sta'' then Inr (1 / a, 1 / (a + b))
      else if qtype = ''pos'' then Inr (1 / a, 0)
      else if qtype = ''neg'' then Inr (0, 1 / b)
      else Inl (KeyError ''modularity type unknown''))"

definition adjust_absent :: "real \<Rightarrow> real \<Rightarrow> real \<times> real" where
  \<comment> \<open>\<open>if not s: s = 1; d = 0\<close>\<close>
  "adjust_absent s d = (if s = 0 then (1, 0) else (s, d))"

definition scaling :: "real \<Rightarrow> string \<Rightarrow> real \<Rightarrow> real \<Rightarrow> error + params" where
  \<comment> \<open>the constants of a run, from \<open>gamma\<close>, \<open>qtype\<close> and the totals \<open>a = np.sum(W0)\<close> and
     \<open>b = np.sum(W1)\<close>\<close>
  "scaling gam qtype a b =
     (case qtype_scale qtype a b of
        Inl e \<Rightarrow> Inl e
      | Inr (x, y) \<Rightarrow>
          (case adjust_absent a x of (a', x') \<Rightarrow>
           case adjust_absent b y of (b', y') \<Rightarrow>
             Inr \<lparr>gamma = gam, s0 = a', s1 = b', d0 = x', d1 = y'\<rparr>))"

subsection \<open>The local-moving phase\<close>

definition dQ0_vec :: "params \<Rightarrow> level \<Rightarrow> modules \<Rightarrow> nat \<Rightarrow> nat \<Rightarrow> vec" where
  \<comment> \<open>\<open>dQ0 = ((knm0[u, :] + W0[u, u] - knm0[u, ma]) -
            gamma * kn0[u] * (km0 + kn0[u] - km0[ma]) / s0)\<close>, entry by entry\<close>
  "dQ0_vec C L M u ma =
     map2 (\<lambda>k km. (k + W0 L ! u ! u - knm0 M ! u ! ma)
                    - gamma C * kn0 L ! u * (km + kn0 L ! u - km0 M ! ma) / s0 C)
       (knm0 M ! u) (km0 M)"

definition dQ1_vec :: "params \<Rightarrow> level \<Rightarrow> modules \<Rightarrow> nat \<Rightarrow> nat \<Rightarrow> vec" where
  \<comment> \<open>\<open>dQ1 = ((knm1[u, :] + W1[u, u] - knm1[u, ma]) -
            gamma * kn1[u] * (km1 + kn1[u] - km1[ma]) / s1)\<close>\<close>
  "dQ1_vec C L M u ma =
     map2 (\<lambda>k km. (k + W1 L ! u ! u - knm1 M ! u ! ma)
                    - gamma C * kn1 L ! u * (km + kn1 L ! u - km1 M ! ma) / s1 C)
       (knm1 M ! u) (km1 M)"

definition dQ_vec :: "params \<Rightarrow> level \<Rightarrow> modules \<Rightarrow> nat \<Rightarrow> nat \<Rightarrow> vec" where
  \<comment> \<open>\<open>dQ = d0 * dQ0 - d1 * dQ1; dQ[ma] = 0\<close>\<close>
  "dQ_vec C L M u ma =
     (map2 (\<lambda>x y. d0 C * x - d1 C * y) (dQ0_vec C L M u ma) (dQ1_vec C L M u ma))[ma := 0]"

definition move_node :: "level \<Rightarrow> nat \<Rightarrow> nat \<Rightarrow> nat \<Rightarrow> modules \<Rightarrow> modules" where
  \<comment> \<open>the body of \<open>if max_dQ > 1e-10\<close> after \<open>mb = np.argmax(dQ)\<close>\<close>
  "move_node L u ma mb M =
     M\<lparr>knm0 := col_sub (col_add (knm0 M) mb (column (W0 L) u)) ma (column (W0 L) u),
       knm1 := col_sub (col_add (knm1 M) mb (column (W1 L) u)) ma (column (W1 L) u),
       km0 := vec_sub (vec_add (km0 M) mb (kn0 L ! u)) ma (kn0 L ! u),
       km1 := vec_sub (vec_add (km1 M) mb (kn1 L ! u)) ma (kn1 L ! u),
       m := (m M)[u := mb + 1]\<rparr>"

definition node_step :: "params \<Rightarrow> level \<Rightarrow> nat \<Rightarrow> bool \<times> modules \<Rightarrow> bool \<times> modules" where
  \<comment> \<open>one iteration of \<open>for u in np.random.permutation(nh)\<close>, on \<open>(flag, state)\<close>\<close>
  "node_step C L u fM =
     (let M = snd fM;
          ma = m M ! u - 1;
          dQ = dQ_vec C L M u ma;
          max_dQ = np_max dQ
      in if max_dQ > tol then (True, move_node L u ma (np_argmax dQ) M) else fM)"

definition one_pass :: "params \<Rightarrow> level \<Rightarrow> nat list \<Rightarrow> modules \<Rightarrow> bool \<times> modules" where
  \<comment> \<open>\<open>flag = False\<close> and the \<open>for\<close> loop over the permutation\<close>
  "one_pass C L p M = fold (node_step C L) p (False, M)"

function pass_loop ::
  "('r \<Rightarrow> nat \<Rightarrow> nat list \<times> 'r) \<Rightarrow> params \<Rightarrow> level \<Rightarrow> nat \<Rightarrow> nat \<Rightarrow> 'r \<Rightarrow> modules
     \<Rightarrow> (error + modules \<times> nat) \<times> 'r" where
  \<comment> \<open>\<open>while flag\<close>, entered with \<open>flag = True\<close> after \<open>it\<close> passes: \<open>it += 1\<close>, the test
     \<open>it > 1000\<close>, one pass, and again if a node has moved. The result carries the number
     of passes executed. For \<open>it > 1000\<close> the statement is
     \<open>raise BCTParamError('Infinite Loop was detected and stopped. This was probably
     caused by passing in a directed matrix.')\<close>, which raises \<open>NameError\<close>.\<close>
  "pass_loop perm C L n it g M =
     (if it + 1 > 1000
      then (Inl (NameError ''BCTParamError''), g)
      else (case perm g n of (p, g') \<Rightarrow>
              (case one_pass C L p M of (flag, M') \<Rightarrow>
                 if flag then pass_loop perm C L n (it + 1) g' M'
                 else (Inr (M', it + 1), g'))))"
  by pat_completeness auto
termination
  by (relation "measure (\<lambda>(perm, C, L, n, it, g, M). 1001 - it)") auto

declare pass_loop.simps [simp del]

subsection \<open>One hierarchy level\<close>

definition relabel_step :: "nat list \<Rightarrow> nat list \<Rightarrow> nat \<Rightarrow> nat list \<Rightarrow> nat list" where
  \<comment> \<open>\<open>ci[h][np.where(ci[h - 1] == u + 1)] = m[u]\<close>\<close>
  "relabel_step ms prev u cur = map2 (\<lambda>p c. if p = u + 1 then ms ! u else c) prev cur"

definition relabel :: "nat \<Rightarrow> nat list \<Rightarrow> nat list \<Rightarrow> nat list \<Rightarrow> nat list" where
  \<comment> \<open>\<open>for u in range(nh)\<close> of that assignment\<close>
  "relabel k ms prev cur = fold (relabel_step ms prev) [0..<k] cur"

definition block_sum :: "mat \<Rightarrow> nat list \<Rightarrow> nat \<Rightarrow> nat \<Rightarrow> real" where
  \<comment> \<open>\<open>np.sum(A[np.ix_(m == a, m == b)])\<close>\<close>
  "block_sum A ms a b =
     sum_list (map (\<lambda>i. sum_list (map (\<lambda>j. A ! i ! j)
                                (filter (\<lambda>j. ms ! j = b) [0..<length ms])))
                (filter (\<lambda>i. ms ! i = a) [0..<length ms]))"

definition aggregate :: "mat \<Rightarrow> nat list \<Rightarrow> nat \<Rightarrow> mat" where
  \<comment> \<open>the two nested \<open>for\<close> loops that fill \<open>wn0\<close> (and, with \<open>W1\<close>, \<open>wn1\<close>)\<close>
  "aggregate A ms k =
     fold (\<lambda>u wn. fold (\<lambda>v wn'. let wn2 = mat_set wn' u v (block_sum A ms (u + 1) (v + 1))
                                  in mat_set wn2 v u (wn2 ! u ! v))
                     [u..<k] wn)
       [0..<k] (replicate k (replicate k 0))"

definition level_q :: "params \<Rightarrow> mat \<Rightarrow> mat \<Rightarrow> real" where
  \<comment> \<open>\<open>q[h] = d0 * q0 - d1 * q1\<close> for the aggregated matrices\<close>
  "level_q C A B =
     (let q0 = np_trace A - np_sum (np_dot A A) / s0 C;
          q1 = np_trace B - np_sum (np_dot B B) / s1 C
      in d0 C * q0 - d1 C * q1)"

definition level_of :: "mat \<Rightarrow> mat \<Rightarrow> level" where
  \<comment> \<open>\<open>kn0 = np.sum(W0, axis=0); kn1 = np.sum(W1, axis=0)\<close>: what a level reads\<close>
  "level_of A B = \<lparr>W0 = A, W1 = B, kn0 = np_sum_axis0 A, kn1 = np_sum_axis0 B\<rparr>"

definition singletons :: "nat \<Rightarrow> level \<Rightarrow> modules" where
  \<comment> \<open>\<open>km0 = kn0.copy(); km1 = kn1.copy(); knm0 = W0.copy(); knm1 = W1.copy();
     m = np.arange(nh) + 1\<close>\<close>
  "singletons k L = \<lparr>m = np_arange1 k, km0 = kn0 L, km1 = kn1 L, knm0 = W0 L, knm1 = W1 L\<rparr>"

definition level_finish :: "params \<Rightarrow> nat \<Rightarrow> nat \<Rightarrow> hier \<Rightarrow> modules \<Rightarrow> error + hier" where
  \<comment> \<open>the body of \<open>while q[h] - q[h - 1] > 1e-10\<close> from \<open>h += 1\<close> on, for the state \<open>M\<close> that
     the pass loop has left; \<open>h\<close> is the value before \<open>h += 1\<close>\<close>
  "level_finish C n h H M =
     (let h' = h + 1;
          ci1 = ci H @ [Some (replicate n 0)];
          ms = renumber (m M);
          ci2 = ci1[h' := Some (relabel (nh H) ms (the (ci1 ! (h' - 1))) (the (ci1 ! h')))]
      in if ms = []
         then Inl (ValueError
           ''zero-size array to reduction operation maximum which has no identity'')
         else
           (let k = np_max ms;
                wn0 = aggregate (W0 H) ms k;
                wn1 = aggregate (W1 H) ms k;
                q1 = q H @ [0]
            in Inr \<lparr>W0 = wn0, W1 = wn1, nh = k, ci = ci2,
                     q = q1[h' := level_q C wn0 wn1]\<rparr>))"

definition level_body ::
  "'r np_random \<Rightarrow> params \<Rightarrow> nat \<Rightarrow> nat \<Rightarrow> 'r \<Rightarrow> hier \<Rightarrow> (error + hier) \<times> 'r" where
  \<comment> \<open>the body of \<open>while q[h] - q[h - 1] > 1e-10\<close> after the test of \<open>h > 300\<close>\<close>
  "level_body R C n h g H =
     (let L = level_of (W0 H) (W1 H)
      in case pass_loop (permutation R) C L (nh H) 0 g (singletons (nh H) L) of
           (Inl e, g') \<Rightarrow> (Inl e, g')
         | (Inr (M, it), g') \<Rightarrow> (level_finish C n h H M, g'))"

subsection \<open>The hierarchy loop and the function\<close>

function hier_loop ::
  "'r np_random \<Rightarrow> params \<Rightarrow> nat \<Rightarrow> nat \<Rightarrow> 'r \<Rightarrow> hier \<Rightarrow> (error + nat \<times> hier) \<times> 'r" where
  \<comment> \<open>\<open>while q[h] - q[h - 1] > 1e-10\<close>, for \<open>n = len(W)\<close>; the result carries the final \<open>h\<close>.
     For \<open>h > 300\<close> the statement is \<open>raise BCTParamError('Modularity Infinite Loop Style
     A.  Please contact the developer with this error.')\<close>, which raises \<open>NameError\<close>.\<close>
  "hier_loop R C n h g H =
     (if q H ! h - q H ! (h - 1) > tol
      then (if h > 300
            then (Inl (NameError ''BCTParamError''), g)
            else (case level_body R C n h g H of
                    (Inl e, g') \<Rightarrow> (Inl e, g')
                  | (Inr H', g') \<Rightarrow> hier_loop R C n (h + 1) g' H'))
      else (Inr (h, H), g))"
  by pat_completeness auto
termination
  by (relation "measure (\<lambda>(R, C, n, h, g, H). 301 - h)") auto

declare hier_loop.simps [simp del]

definition louvain_hierarchy ::
  "'r np_random \<Rightarrow> mat \<Rightarrow> real \<Rightarrow> string \<Rightarrow> int option \<Rightarrow> 'r \<Rightarrow> 'r
     \<Rightarrow> (error + nat \<times> hier) \<times> 'r" where
  \<comment> \<open>the function up to the exit of the hierarchy loop: the final \<open>h\<close>, the lists \<open>ci\<close>
     and \<open>q\<close>, and the state of the global generator\<close>
  "louvain_hierarchy R W gam qtype seed entropy g0 =
     (case np_random_seed R seed entropy g0 of
        (Inl e, g) \<Rightarrow> (Inl e, g)
      | (Inr _, g) \<Rightarrow>
          (let n = length W;
               Wp = pos_part W;
               Wn = neg_part W
           in case scaling gam qtype (np_sum Wp) (np_sum Wn) of
                Inl e \<Rightarrow> (Inl e, g)
              | Inr C \<Rightarrow>
                  hier_loop R C n 1 g
                    \<lparr>W0 = Wp, W1 = Wn, nh = n, ci = [None, Some (np_arange1 n)],
                      q = [- 1, 0]\<rparr>))"

definition modularity_louvain_und_sign ::
  "'r np_random \<Rightarrow> mat \<Rightarrow> real \<Rightarrow> string \<Rightarrow> int option \<Rightarrow> 'r \<Rightarrow> 'r
     \<Rightarrow> (error + nat list \<times> real) \<times> 'r" where
  \<comment> \<open>\<open>return ci_ret, q[-1]\<close>, with the generator's final state\<close>
  "modularity_louvain_und_sign R W gam qtype seed entropy g0 =
     (case louvain_hierarchy R W gam qtype seed entropy g0 of
        (Inl e, g) \<Rightarrow> (Inl e, g)
      | (Inr (h, H), g) \<Rightarrow> (Inr (renumber (the (last (ci H))), last (q H)), g))"

definition id_random :: "nat np_random" where
  \<comment> \<open>a generator for examples: the state counts the permutations drawn, and every
     permutation is the identity\<close>
  "id_random = \<lparr>seed_state = nat, permutation = (\<lambda>g n. ([0..<n], Suc g))\<rparr>"

section \<open>Definitions used to state the properties\<close>

subsection \<open>The delta as the specification words it\<close>

text \<open>
  The specification writes the delta with the indicator \<open>[mb == ma]\<close> on the self-loop
  term and on the own-degree term. These three definitions follow the specification's
  sentence, not the source; they are compared with \<open>dQ_vec\<close> below.
\<close>

definition spec_dQ0 :: "params \<Rightarrow> level \<Rightarrow> modules \<Rightarrow> nat \<Rightarrow> nat \<Rightarrow> nat \<Rightarrow> real" where
  "spec_dQ0 C L M u ma mb =
     knm0 M ! u ! mb + W0 L ! u ! u * (if mb = ma then 1 else 0) - knm0 M ! u ! ma
       - gamma C * kn0 L ! u
           * (km0 M ! mb + kn0 L ! u * (if mb = ma then 1 else 0) - km0 M ! ma) / s0 C"

definition spec_dQ1 :: "params \<Rightarrow> level \<Rightarrow> modules \<Rightarrow> nat \<Rightarrow> nat \<Rightarrow> nat \<Rightarrow> real" where
  "spec_dQ1 C L M u ma mb =
     knm1 M ! u ! mb + W1 L ! u ! u * (if mb = ma then 1 else 0) - knm1 M ! u ! ma
       - gamma C * kn1 L ! u
           * (km1 M ! mb + kn1 L ! u * (if mb = ma then 1 else 0) - km1 M ! ma) / s1 C"

definition spec_dQ :: "params \<Rightarrow> level \<Rightarrow> modules \<Rightarrow> nat \<Rightarrow> nat \<Rightarrow> nat \<Rightarrow> real" where
  "spec_dQ C L M u ma mb =
     (if mb = ma then 0 else d0 C * spec_dQ0 C L M u ma mb - d1 C * spec_dQ1 C L M u ma mb)"

subsection \<open>Division by zero\<close>

text \<open>
  In numpy \<open>1 / s\<close> with \<open>s = 0.0\<close> is \<open>inf\<close> (with a warning), in HOL it is 0. The
  constants are defined a second time with an arbitrary value \<open>z\<close> for every division by
  zero, to show below that this value never reaches them.
\<close>

definition np_divide :: "real \<Rightarrow> real \<Rightarrow> real \<Rightarrow> real" where
  \<comment> \<open>\<open>x / y\<close>, with \<open>z\<close> for a division by zero\<close>
  "np_divide z x y = (if y = 0 then z else x / y)"

definition scaling_with :: "real \<Rightarrow> real \<Rightarrow> string \<Rightarrow> real \<Rightarrow> real \<Rightarrow> error + params" where
  \<comment> \<open>\<open>scaling\<close> with \<open>np_divide z\<close> for every division\<close>
  "scaling_with z gam qtype a b =
     (case (if qtype = ''smp'' then Inr (np_divide z 1 a, np_divide z 1 b)
            else if qtype = ''gja'' then Inr (np_divide z 1 (a + b), np_divide z 1 (a + b))
            else if qtype = ''sta'' then Inr (np_divide z 1 a, np_divide z 1 (a + b))
            else if qtype = ''pos'' then Inr (np_divide z 1 a, 0)
            else if qtype = ''neg'' then Inr (0, np_divide z 1 b)
            else Inl (KeyError ''modularity type unknown'')) of
        Inl e \<Rightarrow> Inl e
      | Inr (x, y) \<Rightarrow>
          (case adjust_absent a x of (a', x') \<Rightarrow>
           case adjust_absent b y of (b', y') \<Rightarrow>
             Inr \<lparr>gamma = gam, s0 = a', s1 = b', d0 = x', d1 = y'\<rparr>))"

subsection \<open>Shapes and the accumulator invariant\<close>

definition wf_level :: "nat \<Rightarrow> level \<Rightarrow> bool" where
  \<comment> \<open>the matrices are \<open>n\<times>n\<close> and the degree vectors have \<open>n\<close> entries\<close>
  "wf_level n L =
     (length (W0 L) = n \<and> list_all (\<lambda>r. length r = n) (W0 L) \<and>
      length (W1 L) = n \<and> list_all (\<lambda>r. length r = n) (W1 L) \<and>
      length (kn0 L) = n \<and> length (kn1 L) = n)"

definition wf_modules :: "nat \<Rightarrow> modules \<Rightarrow> bool" where
  \<comment> \<open>\<open>n\<close> labels in \<open>1..n\<close>, vectors of \<open>n\<close> entries, \<open>n\<times>n\<close> matrices\<close>
  "wf_modules n M =
     (length (m M) = n \<and> list_all (\<lambda>x. 1 \<le> x \<and> x \<le> n) (m M) \<and>
      length (km0 M) = n \<and> length (km1 M) = n \<and>
      length (knm0 M) = n \<and> list_all (\<lambda>r. length r = n) (knm0 M) \<and>
      length (knm1 M) = n \<and> list_all (\<lambda>r. length r = n) (knm1 M))"



definition in_range :: "('r \<Rightarrow> nat \<Rightarrow> nat list \<times> 'r) \<Rightarrow> bool" where
  \<comment> \<open>what is used of \<open>np.random.permutation(k)\<close>: its entries are indices below \<open>k\<close>\<close>
  "in_range perm = (\<forall>g k. \<forall>u\<in>set (fst (perm g k)). u < k)"

definition ci_ok :: "nat \<Rightarrow> nat \<Rightarrow> hier \<Rightarrow> bool" where
  \<comment> \<open>the invariant of the hierarchy loop on the list \<open>ci\<close>: entries \<open>1..h\<close> label the
     \<open>n\<close> original nodes with a contiguous range, the last one with \<open>1..nh\<close>\<close>
  "ci_ok n h H =
     (length (ci H) = h + 1 \<and>
      (\<forall>i. 1 \<le> i \<and> i \<le> h \<longrightarrow>
         (\<exists>xs k. ci H ! i = Some xs \<and> length xs = n \<and> k \<le> n \<and> set xs = {1..k})) \<and>
      (\<exists>xs. ci H ! h = Some xs \<and> set xs = {1..nh H}))"

definition nonneg :: "mat \<Rightarrow> bool" where
  \<comment> \<open>no entry of the matrix is negative\<close>
  "nonneg W = list_all (list_all (\<lambda>x. 0 \<le> x)) W"

subsection \<open>Passes without the cap\<close>

definition next_pass ::
  "('r \<Rightarrow> nat \<Rightarrow> nat list \<times> 'r) \<Rightarrow> params \<Rightarrow> level \<Rightarrow> nat \<Rightarrow> 'r \<times> modules \<Rightarrow> 'r \<times> modules" where
  \<comment> \<open>one pass over a fresh permutation\<close>
  "next_pass perm C L n gM =
     (case perm (fst gM) n of (p, g') \<Rightarrow> (g', snd (one_pass C L p (snd gM))))"

definition pass_moves ::
  "('r \<Rightarrow> nat \<Rightarrow> nat list \<times> 'r) \<Rightarrow> params \<Rightarrow> level \<Rightarrow> nat \<Rightarrow> 'r \<times> modules \<Rightarrow> bool" where
  \<comment> \<open>the \<open>flag\<close> of that pass: some node moves\<close>
  "pass_moves perm C L n gM = fst (one_pass C L (fst (perm (fst gM) n)) (snd gM))"

fun run_passes ::
  "('r \<Rightarrow> nat \<Rightarrow> nat list \<times> 'r) \<Rightarrow> params \<Rightarrow> level \<Rightarrow> nat \<Rightarrow> nat \<Rightarrow> 'r \<times> modules \<Rightarrow> 'r \<times> modules" where
  "run_passes perm C L n 0 gM = gM"
| "run_passes perm C L n (Suc k) gM = run_passes perm C L n k (next_pass perm C L n gM)"

subsection \<open>Example inputs\<close>

definition pair_graph :: mat where
  \<comment> \<open>two nodes joined by an edge of weight 1\<close>
  "pair_graph = [[0, 1], [1, 0]]"

definition pair_params :: params where
  \<comment> \<open>the constants of \<open>pair_graph\<close> for \<open>gamma = 1\<close>, \<open>qtype = 'sta'\<close>\<close>
  "pair_params = \<lparr>gamma = 1, s0 = 2, s1 = 1, d0 = 1 / 2, d1 = 0\<rparr>"

definition pair_level :: level where
  "pair_level = level_of (pos_part pair_graph) (neg_part pair_graph)"

definition path_graph :: mat where
  \<comment> \<open>the path 0 - 1 - 2 - 3 with weights 2, 1, 2\<close>
  "path_graph = [[0, 2, 0, 0], [2, 0, 1, 0], [0, 1, 0, 2], [0, 0, 2, 0]]"

definition directed_graph :: mat where
  \<comment> \<open>a matrix that is not symmetric\<close>
  "directed_graph = [[- 1, - 1], [0, 0]]"

definition pair_merged :: modules where
  \<comment> \<open>\<open>pair_graph\<close> after node 0 has joined the module of node 1\<close>
  "pair_merged = \<lparr>m = [2, 2], km0 = [0, 2], km1 = [0, 0],
     knm0 = [[0, 1], [0, 1]], knm1 = [[0, 0], [0, 0]]\<rparr>"

definition star_graph :: mat where
  \<comment> \<open>node 0 joined to nodes 1 and 2 by edges of weight 1\<close>
  "star_graph = [[0, 1, 1], [1, 0, 0], [1, 0, 0]]"

definition star_params :: params where
  \<comment> \<open>the constants of \<open>star_graph\<close> for \<open>gamma = 1\<close>, \<open>qtype = 'sta'\<close>\<close>
  "star_params = \<lparr>gamma = 1, s0 = 4, s1 = 1, d0 = 1 / 4, d1 = 0\<rparr>"

definition star_level :: level where
  "star_level = level_of (pos_part star_graph) (neg_part star_graph)"

definition star_moved :: modules where
  \<comment> \<open>\<open>star_graph\<close> after node 0 has joined the module of node 1\<close>
  "star_moved = \<lparr>m = [2, 2, 3], km0 = [0, 3, 1], km1 = [0, 0, 0],
     knm0 = [[0, 1, 1], [0, 1, 0], [0, 1, 0]], knm1 = [[0, 0, 0], [0, 0, 0], [0, 0, 0]]\<rparr>"

definition directed_params :: params where
  \<comment> \<open>the constants of \<open>directed_graph\<close> for \<open>gamma = 1\<close>, \<open>qtype = 'neg'\<close>\<close>
  "directed_params = \<lparr>gamma = 1, s0 = 1, s1 = 2, d0 = 0, d1 = 1 / 2\<rparr>"

definition directed_level :: level where
  "directed_level = level_of (pos_part directed_graph) (neg_part directed_graph)"

definition directed_low :: modules where
  \<comment> \<open>both nodes of \<open>directed_graph\<close> in module 0\<close>
  "directed_low = \<lparr>m = [1, 1], km0 = [0, 0], km1 = [2, 0], knm0 = [[0, 0], [0, 0]],
     knm1 = [[2, 0], [0, 0]]\<rparr>"

definition directed_high :: modules where
  \<comment> \<open>both nodes of \<open>directed_graph\<close> in module 1\<close>
  "directed_high = \<lparr>m = [2, 2], km0 = [0, 0], km1 = [0, 2], knm0 = [[0, 0], [0, 0]],
     knm1 = [[0, 2], [0, 0]]\<rparr>"

definition capped_hier :: hier where
  \<comment> \<open>a state of the hierarchy loop for \<open>h = 301\<close> whose last gain is 1\<close>
  "capped_hier = \<lparr>W0 = [[1]], W1 = [[0]], nh = 1, ci = [], q = replicate 301 0 @ [1]\<rparr>"

definition path_params :: params where
  \<comment> \<open>the constants of \<open>path_graph\<close> for \<open>gamma = 1 / 10\<close>, \<open>qtype = 'sta'\<close>\<close>
  "path_params = \<lparr>gamma = 1 / 10, s0 = 10, s1 = 1, d0 = 1 / 10, d1 = 0\<rparr>"

definition path_level :: level where
  "path_level = level_of (pos_part path_graph) (neg_part path_graph)"

definition path_pairs :: modules where
  \<comment> \<open>\<open>path_graph\<close> with the modules \<open>{0, 1}\<close> and \<open>{2, 3}\<close>\<close>
  "path_pairs = \<lparr>m = [2, 2, 4, 4], km0 = [0, 5, 0, 5], km1 = [0, 0, 0, 0],
     knm0 = [[0, 2, 0, 0], [0, 2, 0, 1], [0, 1, 0, 2], [0, 0, 0, 2]],
     knm1 = [[0, 0, 0, 0], [0, 0, 0, 0], [0, 0, 0, 0], [0, 0, 0, 0]]\<rparr>"

definition path_start :: hier where
  \<comment> \<open>the state of the hierarchy loop of \<open>path_graph\<close> on entry\<close>
  "path_start = \<lparr>W0 = pos_part path_graph, W1 = neg_part path_graph, nh = length path_graph,
     ci = [None, Some (np_arange1 (length path_graph))], q = [- 1, 0]\<rparr>"

definition path_second :: hier where
  \<comment> \<open>after the first level\<close>
  "path_second = \<lparr>W0 = [[4, 1], [1, 4]], W1 = [[0, 0], [0, 0]], nh = 2,
     ci = [None, Some [1, 2, 3, 4], Some [1, 1, 2, 2]], q = [- 1, 0, 3 / 10]\<rparr>"

definition path_merged :: modules where
  \<comment> \<open>the two modules of \<open>path_second\<close> merged\<close>
  "path_merged = \<lparr>m = [2, 2], km0 = [0, 10], km1 = [0, 0],
     knm0 = [[0, 5], [0, 5]], knm1 = [[0, 0], [0, 0]]\<rparr>"

definition path_third :: hier where
  \<comment> \<open>after the second level\<close>
  "path_third = \<lparr>W0 = [[10]], W1 = [[0]], nh = 1,
     ci = [None, Some [1, 2, 3, 4], Some [1, 1, 2, 2], Some [1, 1, 1, 1]],
     q = [- 1, 0, 3 / 10, 0]\<rparr>"


section \<open>Lemmas\<close>

subsection \<open>Indices and maxima\<close>

lemma index_of_less: "x \<in> set xs \<Longrightarrow> index_of x xs < length xs"
  by (induction xs) auto

lemma nth_index_of: "x \<in> set xs \<Longrightarrow> xs ! index_of x xs = x"
  by (induction xs) auto

lemma before_index_of: "j < index_of x xs \<Longrightarrow> xs ! j \<noteq> x"
proof (induction xs arbitrary: j)
  case Nil
  then show ?case by simp
next
  case (Cons y ys)
  then show ?case by (cases j) (auto split: if_splits)
qed

lemma index_of_le: "index_of x xs \<le> length xs"
  by (induction xs) auto

lemma index_of_nth: "distinct xs \<Longrightarrow> i < length xs \<Longrightarrow> index_of (xs ! i) xs = i"
proof (induction xs arbitrary: i)
  case Nil
  then show ?case by simp
next
  case (Cons y ys)
  then show ?case by (cases i) auto
qed

lemma np_max_in: "xs \<noteq> [] \<Longrightarrow> np_max xs \<in> set xs"
  by (simp add: np_max_def)

lemma np_max_ge: "x \<in> set xs \<Longrightarrow> x \<le> np_max xs"
  by (simp add: np_max_def)

lemma np_argmax_less: "xs \<noteq> [] \<Longrightarrow> np_argmax xs < length xs"
  by (simp add: np_argmax_def index_of_less np_max_in)

lemma nth_np_argmax: "xs \<noteq> [] \<Longrightarrow> xs ! np_argmax xs = np_max xs"
  by (simp add: np_argmax_def nth_index_of np_max_in)

lemma before_np_argmax: "j < np_argmax xs \<Longrightarrow> xs ! j < np_max xs"
proof -
  assume j: "j < np_argmax xs"
  then have ne: "xs ! j \<noteq> np_max xs"
    by (simp add: np_argmax_def before_index_of)
  have "np_argmax xs \<le> length xs"
    unfolding np_argmax_def by (rule index_of_le)
  with j have "xs ! j \<in> set xs" by simp
  then have "xs ! j \<le> np_max xs" by (rule np_max_ge)
  with ne show ?thesis by simp
qed



subsection \<open>The accumulator invariant\<close>










lemma wf_label:
  assumes "wf_modules n M" and "u < n"
  shows "m M ! u = (m M ! u - 1) + 1" and "m M ! u - 1 < n"
proof -
  from assms have "1 \<le> m M ! u \<and> m M ! u \<le> n"
    by (simp add: wf_modules_def list_all_length)
  then show "m M ! u = (m M ! u - 1) + 1" and "m M ! u - 1 < n" by auto
qed

lemma dQ_vec_length:
  assumes "wf_modules n M" and "u < n"
  shows "length (dQ_vec C L M u ma) = n"
  using assms
  by (simp add: dQ_vec_def dQ0_vec_def dQ1_vec_def wf_modules_def list_all_length)

lemma tol_pos: "0 < tol"
  by (simp add: tol_def)

lemma move_target:
  assumes wf: "wf_modules n M" and u: "u < n"
    and big: "tol < np_max (dQ_vec C L M u (m M ! u - 1))"
  shows "np_argmax (dQ_vec C L M u (m M ! u - 1)) < n"
    and "np_argmax (dQ_vec C L M u (m M ! u - 1)) \<noteq> m M ! u - 1"
proof -
  let ?ma = "m M ! u - 1"
  let ?dQ = "dQ_vec C L M u ?ma"
  have len: "length ?dQ = n" by (rule dQ_vec_length [OF wf u])
  with u have ne: "?dQ \<noteq> []" by auto
  show "np_argmax ?dQ < n" using np_argmax_less [OF ne] len by simp
  have "?ma < length ?dQ" using wf_label(2) [OF wf u] len by simp
  then have "?dQ ! ?ma = 0" by (simp add: dQ_vec_def)
  moreover have "?dQ ! np_argmax ?dQ > 0" using nth_np_argmax [OF ne] big tol_pos by simp
  ultimately show "np_argmax ?dQ \<noteq> ?ma" by auto
qed

lemma length_m_node_step: "length (m (snd (node_step C L u fM))) = length (m (snd fM))"
  by (simp add: node_step_def Let_def move_node_def)



lemma length_m_fold: "length (m (snd (fold (node_step C L) p fM))) = length (m (snd fM))"
  by (induction p arbitrary: fM) (simp_all add: length_m_node_step)


lemma length_m_one_pass: "length (m (snd (one_pass C L p M))) = length (m M)"
  by (simp add: one_pass_def length_m_fold)


subsection \<open>The example generator\<close>

lemma id_random_seed:
  "0 \<le> k \<Longrightarrow> k < 4294967296 \<Longrightarrow> np_random_seed id_random (Some k) e g = (Inr (), nat k)"
  by (simp add: np_random_seed_def valid_seed_def seeded_def id_random_def)


section \<open>Configuration: scaling constants, unknown variants, seeding\<close>

text \<open>
  The totals of both parts are non-negative, and for non-negative totals every division
  by zero in the chain is overwritten by one of the two adjustments; \<open>s0\<close> and \<open>s1\<close>, by
  which the deltas and the level value divide, are not zero after them.
\<close>

lemma sum_list_nonneg_real:
  fixes xs :: "real list"
  shows "(\<And>x. x \<in> set xs \<Longrightarrow> 0 \<le> x) \<Longrightarrow> 0 \<le> sum_list xs"
  by (induction xs) auto

lemma np_sum_parts_nonneg: "0 \<le> np_sum (pos_part W)" "0 \<le> np_sum (neg_part W)"
  unfolding np_sum_def pos_part_def neg_part_def
  by (intro sum_list_nonneg_real; auto intro!: sum_list_nonneg_real)+

lemma division_by_zero_overwritten:
  assumes "0 \<le> a" and "0 \<le> b"
  shows "scaling_with z gam qtype a b = scaling gam qtype a b"
  using assms
  by (auto simp: scaling_with_def scaling_def qtype_scale_def adjust_absent_def np_divide_def
      add_nonneg_eq_0_iff)

lemma scaling_nonzero:
  assumes "scaling gam qtype a b = Inr C"
  shows "s0 C \<noteq> 0 \<and> s1 C \<noteq> 0"
  using assms
  by (auto simp: scaling_def qtype_scale_def adjust_absent_def split: if_splits)



text \<open>
  C2, as the code has it. For a \<open>qtype\<close> that is none of the five variants (and a seed
  that \<open>np.random.seed\<close> accepts) the function raises \<open>KeyError('modularity type unknown')\<close>
  and no hierarchy is built. The test comes after \<open>np.random.seed(seed)\<close>: the global
  generator has been reseeded when the error is raised.
\<close>

theorem unknown_qtype:
  assumes "qtype \<notin> {''smp'', ''gja'', ''sta'', ''pos'', ''neg''}" and "valid_seed seed"
  shows "louvain_hierarchy R W gam qtype seed e g0 =
           (Inl (KeyError ''modularity type unknown''), seeded R seed e)
       \<and> modularity_louvain_und_sign R W gam qtype seed e g0 =
           (Inl (KeyError ''modularity type unknown''), seeded R seed e)"
  using assms
  by (simp add: modularity_louvain_und_sign_def louvain_hierarchy_def np_random_seed_def
      scaling_def qtype_scale_def Let_def)

theorem unknown_qtype_witness:
  "''xyz'' \<notin> {''smp'', ''gja'', ''sta'', ''pos'', ''neg''} \<and> valid_seed (Some 3)
   \<and> louvain_hierarchy id_random pair_graph 1 ''xyz'' (Some 3) 5 7 =
       (Inl (KeyError ''modularity type unknown''), 3)
   \<and> modularity_louvain_und_sign id_random pair_graph 1 ''xyz'' (Some 3) 5 7 =
       (Inl (KeyError ''modularity type unknown''), 3)"
proof -
  have h: "''xyz'' \<notin> {''smp'', ''gja'', ''sta'', ''pos'', ''neg''}" by simp
  have v: "valid_seed (Some 3)" by (simp add: valid_seed_def)
  have s: "seeded id_random (Some 3) 5 = 3" by (simp add: seeded_def id_random_def)
  show ?thesis
    using h v unknown_qtype [OF h v, of id_random pair_graph 1 5 7] s by simp
qed

text \<open>
  C2, as the specification states it ("no side effects"): called with the global
  generator in state 7 and an unknown variant, the function leaves the generator in the
  state of the seed 3.
\<close>

theorem unknown_qtype_counterexample:
  "fst (modularity_louvain_und_sign id_random pair_graph 1 ''xyz'' (Some 3) 5 7) =
     Inl (KeyError ''modularity type unknown'')
   \<and> snd (modularity_louvain_und_sign id_random pair_graph 1 ''xyz'' (Some 3) 5 7) \<noteq> 7"
  by code_simp

text \<open>
  C6. With an integer seed the result (labels and Q, or the error) is a function of the
  matrix, \<open>gamma\<close>, \<open>qtype\<close> and the seed alone: neither the previous state of the global
  generator nor the operating system's entropy enters it. With a seed that
  \<open>np.random.seed\<close> accepts, the generator's final state is determined in the same way.
  This holds for every matrix and every \<open>qtype\<close>.
\<close>

theorem seed_determinism:
  "fst (modularity_louvain_und_sign R W gam qtype (Some k) e1 g1) =
   fst (modularity_louvain_und_sign R W gam qtype (Some k) e2 g2)
   \<and> (valid_seed (Some k) \<longrightarrow>
        modularity_louvain_und_sign R W gam qtype (Some k) e1 g1 =
        modularity_louvain_und_sign R W gam qtype (Some k) e2 g2)"
  by (simp add: modularity_louvain_und_sign_def louvain_hierarchy_def np_random_seed_def
      seeded_def)

theorem seed_determinism_witness:
  "valid_seed (Some 3)
   \<and> modularity_louvain_und_sign id_random pair_graph 1 ''sta'' (Some 3) 5 7 =
     modularity_louvain_und_sign id_random pair_graph 1 ''sta'' (Some 3) 11 13
   \<and> fst (modularity_louvain_und_sign id_random pair_graph 1 ''sta'' (Some (- 1)) 5 7) =
     fst (modularity_louvain_und_sign id_random pair_graph 1 ''sta'' (Some (- 1)) 11 13)"
proof -
  have v: "valid_seed (Some 3)" by (simp add: valid_seed_def)
  show ?thesis
    using v seed_determinism [of id_random pair_graph 1 "''sta''" 3 5 7 11 13]
      seed_determinism [of id_random pair_graph 1 "''sta''" "- 1" 5 7 11 13]
    by blast
qed

section \<open>The modularity delta of a move\<close>

text \<open>
  C1, as the code has it. For a node \<open>u\<close> in module \<open>ma\<close> and every candidate \<open>mb\<close>, the
  entry \<open>mb\<close> of the vector \<open>dQ\<close> is \<open>d0 * dQ0 - d1 * dQ1\<close> with
  \<open>dQ0 = knm0[u,mb] + W0[u,u] - knm0[u,ma] - gamma * kn0[u] * (km0[mb] + kn0[u] - km0[ma]) / s0\<close>
  and the same for \<open>dQ1\<close>: the self-loop term and the own-degree term enter for every
  \<open>mb\<close>. The entry \<open>ma\<close> is then overwritten with 0.
\<close>

theorem delta_formula:
  assumes "mb < length (knm0 M ! u)" and "mb < length (km0 M)"
    and "mb < length (knm1 M ! u)" and "mb < length (km1 M)"
  shows "dQ_vec C L M u ma ! mb =
    (if mb = ma then 0
     else d0 C * (knm0 M ! u ! mb + W0 L ! u ! u - knm0 M ! u ! ma
                  - gamma C * kn0 L ! u * (km0 M ! mb + kn0 L ! u - km0 M ! ma) / s0 C)
        - d1 C * (knm1 M ! u ! mb + W1 L ! u ! u - knm1 M ! u ! ma
                  - gamma C * kn1 L ! u * (km1 M ! mb + kn1 L ! u - km1 M ! ma) / s1 C))"
  using assms by (simp add: dQ_vec_def dQ0_vec_def dQ1_vec_def)

theorem delta_formula_witness:
  "1 < length (knm0 (singletons 2 pair_level) ! 0) \<and> 1 < length (km0 (singletons 2 pair_level))
   \<and> 1 < length (knm1 (singletons 2 pair_level) ! 0) \<and> 1 < length (km1 (singletons 2 pair_level))
   \<and> dQ_vec pair_params pair_level (singletons 2 pair_level) 0 0 ! 1 = 1 / 4
   \<and> dQ_vec pair_params pair_level (singletons 2 pair_level) 0 0 ! 0 = 0"
proof -
  let ?M = "singletons 2 pair_level"
  have h1: "1 < length (knm0 ?M ! 0)" and h2: "1 < length (km0 ?M)"
    and h3: "1 < length (knm1 ?M ! 0)" and h4: "1 < length (km1 ?M)"
    by code_simp+
  have z1: "0 < length (knm0 ?M ! 0)" and z2: "0 < length (km0 ?M)"
    and z3: "0 < length (knm1 ?M ! 0)" and z4: "0 < length (km1 ?M)"
    by code_simp+
  have v: "(if (1::nat) = 0 then 0
     else d0 pair_params * (knm0 ?M ! 0 ! 1 + W0 pair_level ! 0 ! 0 - knm0 ?M ! 0 ! 0
                  - gamma pair_params * kn0 pair_level ! 0
                      * (km0 ?M ! 1 + kn0 pair_level ! 0 - km0 ?M ! 0) / s0 pair_params)
        - d1 pair_params * (knm1 ?M ! 0 ! 1 + W1 pair_level ! 0 ! 0 - knm1 ?M ! 0 ! 0
                  - gamma pair_params * kn1 pair_level ! 0
                      * (km1 ?M ! 1 + kn1 pair_level ! 0 - km1 ?M ! 0) / s1 pair_params)) = (1 / 4 :: real)"
    by code_simp
  have a: "dQ_vec pair_params pair_level ?M 0 0 ! 1 = 1 / 4"
    using delta_formula [OF h1 h2 h3 h4, of pair_params pair_level 0] v by simp
  have b: "dQ_vec pair_params pair_level ?M 0 0 ! 0 = 0"
    using delta_formula [OF z1 z2 z3 z4, of pair_params pair_level 0] by simp
  show ?thesis using h1 h2 h3 h4 a b by simp
qed

text \<open>
  C1, as the specification states it: with the indicator \<open>[mb == ma]\<close> on the two terms,
  the delta of moving node 0 of \<open>pair_graph\<close> from its own module to the module of node 1
  would be \<open>1 / 2\<close>; the code computes \<open>1 / 4\<close>.
\<close>

theorem delta_formula_counterexample:
  "dQ_vec pair_params pair_level (singletons 2 pair_level) 0 0 ! 1 = 1 / 4
   \<and> spec_dQ pair_params pair_level (singletons 2 pair_level) 0 0 1 = 1 / 2
   \<and> dQ_vec pair_params pair_level (singletons 2 pair_level) 0 0 ! 1
       \<noteq> spec_dQ pair_params pair_level (singletons 2 pair_level) 0 0 1"
  by code_simp


section \<open>The local-moving phase\<close>

lemma vec_move_nth:
  assumes "b \<noteq> a" and "a < length v" and "b < length v" and "c < length v"
  shows "vec_sub (vec_add v b x) a x ! c =
         v ! c + (if c = b then x else 0) - (if c = a then x else 0)"
  using assms by (auto simp: vec_sub_def vec_add_def nth_list_update)

lemma col_move_nth:
  assumes "length col = length A" and "v < length A" and "b \<noteq> a"
    and "a < length (A ! v)" and "b < length (A ! v)" and "c < length (A ! v)"
  shows "col_sub (col_add A b col) a col ! v ! c =
         A ! v ! c + (if c = b then col ! v else 0) - (if c = a then col ! v else 0)"
  using assms by (auto simp: col_sub_def col_add_def nth_list_update)

lemma column_nth: "v < length A \<Longrightarrow> column A u ! v = A ! v ! u"
  by (simp add: column_def)

lemma length_column: "length (column A u) = length A"
  by (simp add: column_def)

lemma pair_params_scaling:
  "scaling 1 ''sta'' (np_sum (pos_part pair_graph)) (np_sum (neg_part pair_graph)) = Inr pair_params"
  by code_simp

lemma star_params_scaling:
  "scaling 1 ''sta'' (np_sum (pos_part star_graph)) (np_sum (neg_part star_graph)) = Inr star_params"
  by code_simp

lemma in_range_id_random: "in_range (permutation id_random)"
  by (simp add: in_range_def id_random_def)

text \<open>
  C8. Let \<open>ma = m[u] - 1\<close> and \<open>dQ\<close> the delta vector of node \<open>u\<close>, in a state of the right
  shape. If the maximum of \<open>dQ\<close> exceeds \<open>1e-10\<close>, the step sets the flag and moves \<open>u\<close>:
  its label changes to \<open>mb + 1\<close>, where \<open>mb = np.argmax(dQ)\<close> is an index below \<open>n\<close> that
  holds the maximum and every index before it holds a smaller value (the first index
  among ties); \<open>km0\<close>, \<open>km1\<close> gain the degree of \<open>u\<close> at \<open>mb\<close> and lose it at \<open>ma\<close>, and
  column \<open>mb\<close> of \<open>knm0\<close>, \<open>knm1\<close> gains the weights to \<open>u\<close> and column \<open>ma\<close> loses them;
  all other entries are unchanged. Otherwise the step changes nothing.
\<close>

theorem node_move_rule:
  assumes wl: "wf_level n L" and wm: "wf_modules n M" and u: "u < n"
  shows "(if tol < np_max (dQ_vec C L M u (m M ! u - 1))
          then fst (node_step C L u (f, M)) = True
             \<and> m (snd (node_step C L u (f, M))) = (m M)[u := np_argmax (dQ_vec C L M u (m M ! u - 1)) + 1]
             \<and> m (snd (node_step C L u (f, M))) ! u \<noteq> m M ! u
             \<and> np_argmax (dQ_vec C L M u (m M ! u - 1)) < n
             \<and> (\<forall>j<n. dQ_vec C L M u (m M ! u - 1) ! j
                        \<le> dQ_vec C L M u (m M ! u - 1) ! np_argmax (dQ_vec C L M u (m M ! u - 1)))
             \<and> (\<forall>j<np_argmax (dQ_vec C L M u (m M ! u - 1)). dQ_vec C L M u (m M ! u - 1) ! j
                        < dQ_vec C L M u (m M ! u - 1) ! np_argmax (dQ_vec C L M u (m M ! u - 1)))
             \<and> (\<forall>c<n. km0 (snd (node_step C L u (f, M))) ! c = km0 M ! c
                   + (if c = np_argmax (dQ_vec C L M u (m M ! u - 1)) then kn0 L ! u else 0)
                   - (if c = m M ! u - 1 then kn0 L ! u else 0))
             \<and> (\<forall>c<n. km1 (snd (node_step C L u (f, M))) ! c = km1 M ! c
                   + (if c = np_argmax (dQ_vec C L M u (m M ! u - 1)) then kn1 L ! u else 0)
                   - (if c = m M ! u - 1 then kn1 L ! u else 0))
             \<and> (\<forall>v<n. \<forall>c<n. knm0 (snd (node_step C L u (f, M))) ! v ! c = knm0 M ! v ! c
                   + (if c = np_argmax (dQ_vec C L M u (m M ! u - 1)) then W0 L ! v ! u else 0)
                   - (if c = m M ! u - 1 then W0 L ! v ! u else 0))
             \<and> (\<forall>v<n. \<forall>c<n. knm1 (snd (node_step C L u (f, M))) ! v ! c = knm1 M ! v ! c
                   + (if c = np_argmax (dQ_vec C L M u (m M ! u - 1)) then W1 L ! v ! u else 0)
                   - (if c = m M ! u - 1 then W1 L ! v ! u else 0))
          else node_step C L u (f, M) = (f, M))"
proof (cases "tol < np_max (dQ_vec C L M u (m M ! u - 1))")
  case False
  then show ?thesis by (simp add: node_step_def Let_def)
next
  case True
  let ?ma = "m M ! u - 1"
  let ?dQ = "dQ_vec C L M u ?ma"
  let ?mb = "np_argmax ?dQ"
  have ns: "node_step C L u (f, M) = (True, move_node L u ?ma ?mb M)"
    using True by (simp add: node_step_def Let_def)
  have mb: "?mb < n" and ne: "?mb \<noteq> ?ma" by (rule move_target [OF wm u True])+
  have ma: "m M ! u = ?ma + 1" "?ma < n" by (rule wf_label [OF wm u])+
  have len: "length ?dQ = n" by (rule dQ_vec_length [OF wm u])
  with u have nonempty: "?dQ \<noteq> []" by auto
  have lm: "length (m M) = n" using wm by (simp add: wf_modules_def)
  have moved: "(m M)[u := ?mb + 1] ! u \<noteq> m M ! u"
    using ma(1) ne u lm by simp
  have top: "\<forall>j<n. ?dQ ! j \<le> ?dQ ! ?mb"
    using len nth_np_argmax [OF nonempty] np_max_ge [of _ ?dQ] by auto
  have first: "\<forall>j<?mb. ?dQ ! j < ?dQ ! ?mb"
    using nth_np_argmax [OF nonempty] before_np_argmax [of _ ?dQ] by auto
  have k0: "\<forall>c<n. vec_sub (vec_add (km0 M) ?mb (kn0 L ! u)) ?ma (kn0 L ! u) ! c =
      km0 M ! c + (if c = ?mb then kn0 L ! u else 0) - (if c = ?ma then kn0 L ! u else 0)"
    using wm mb ma(2) ne by (intro allI impI vec_move_nth) (simp_all add: wf_modules_def)
  have k1: "\<forall>c<n. vec_sub (vec_add (km1 M) ?mb (kn1 L ! u)) ?ma (kn1 L ! u) ! c =
      km1 M ! c + (if c = ?mb then kn1 L ! u else 0) - (if c = ?ma then kn1 L ! u else 0)"
    using wm mb ma(2) ne by (intro allI impI vec_move_nth) (simp_all add: wf_modules_def)
  have n0: "\<forall>v<n. \<forall>c<n. col_sub (col_add (knm0 M) ?mb (column (W0 L) u)) ?ma (column (W0 L) u) ! v ! c =
      knm0 M ! v ! c + (if c = ?mb then W0 L ! v ! u else 0) - (if c = ?ma then W0 L ! v ! u else 0)"
  proof (intro allI impI)
    fix v c assume v: "v < n" and c: "c < n"
    have r: "length (knm0 M ! v) = n" using wm v by (simp add: wf_modules_def list_all_length)
    have "col_sub (col_add (knm0 M) ?mb (column (W0 L) u)) ?ma (column (W0 L) u) ! v ! c =
      knm0 M ! v ! c + (if c = ?mb then column (W0 L) u ! v else 0)
        - (if c = ?ma then column (W0 L) u ! v else 0)"
      using wm wl v c r mb ma(2) ne
      by (intro col_move_nth) (simp_all add: wf_modules_def wf_level_def length_column)
    moreover have "column (W0 L) u ! v = W0 L ! v ! u"
      using wl v by (simp add: column_nth wf_level_def)
    ultimately show "col_sub (col_add (knm0 M) ?mb (column (W0 L) u)) ?ma (column (W0 L) u) ! v ! c =
      knm0 M ! v ! c + (if c = ?mb then W0 L ! v ! u else 0) - (if c = ?ma then W0 L ! v ! u else 0)"
      by simp
  qed
  have n1: "\<forall>v<n. \<forall>c<n. col_sub (col_add (knm1 M) ?mb (column (W1 L) u)) ?ma (column (W1 L) u) ! v ! c =
      knm1 M ! v ! c + (if c = ?mb then W1 L ! v ! u else 0) - (if c = ?ma then W1 L ! v ! u else 0)"
  proof (intro allI impI)
    fix v c assume v: "v < n" and c: "c < n"
    have r: "length (knm1 M ! v) = n" using wm v by (simp add: wf_modules_def list_all_length)
    have "col_sub (col_add (knm1 M) ?mb (column (W1 L) u)) ?ma (column (W1 L) u) ! v ! c =
      knm1 M ! v ! c + (if c = ?mb then column (W1 L) u ! v else 0)
        - (if c = ?ma then column (W1 L) u ! v else 0)"
      using wm wl v c r mb ma(2) ne
      by (intro col_move_nth) (simp_all add: wf_modules_def wf_level_def length_column)
    moreover have "column (W1 L) u ! v = W1 L ! v ! u"
      using wl v by (simp add: column_nth wf_level_def)
    ultimately show "col_sub (col_add (knm1 M) ?mb (column (W1 L) u)) ?ma (column (W1 L) u) ! v ! c =
      knm1 M ! v ! c + (if c = ?mb then W1 L ! v ! u else 0) - (if c = ?ma then W1 L ! v ! u else 0)"
      by simp
  qed
  show ?thesis
    unfolding ns using True mb moved top first k0 k1 n0 n1
    by (simp add: move_node_def)
qed

text \<open>
  The witness is on \<open>star_graph\<close>: node 0 has the same delta \<open>1 / 8\<close> to the modules of
  nodes 1 and 2 and moves to the first; node 1 then stays.
\<close>

theorem node_move_rule_witness:
  "wf_level 3 star_level \<and> wf_modules 3 (singletons 3 star_level) \<and> wf_modules 3 star_moved
   \<and> dQ_vec star_params star_level (singletons 3 star_level) 0 0 = [0, 1 / 8, 1 / 8]
   \<and> node_step star_params star_level 0 (False, singletons 3 star_level) = (True, star_moved)
   \<and> np_argmax (dQ_vec star_params star_level (singletons 3 star_level) 0
        (m (singletons 3 star_level) ! 0 - 1)) < 3
   \<and> m (snd (node_step star_params star_level 0 (False, singletons 3 star_level))) ! 0
        \<noteq> m (singletons 3 star_level) ! 0
   \<and> node_step star_params star_level 1 (True, star_moved) = (True, star_moved)"
proof -
  let ?M = "singletons 3 star_level"
  have wl: "wf_level 3 star_level" by code_simp
  have wm: "wf_modules 3 ?M" by code_simp
  have wm': "wf_modules 3 star_moved" by code_simp
  have u0: "(0::nat) < 3" and u1: "(1::nat) < 3" by simp_all
  have dq: "dQ_vec star_params star_level ?M 0 0 = [0, 1 / 8, 1 / 8]" by code_simp
  have st: "node_step star_params star_level 0 (False, ?M) = (True, star_moved)" by code_simp
  have big: "tol < np_max (dQ_vec star_params star_level ?M 0 (m ?M ! 0 - 1))" by code_simp
  have small: "\<not> tol < np_max (dQ_vec star_params star_level star_moved 1 (m star_moved ! 1 - 1))"
    by code_simp
  note r = node_move_rule [OF wl wm u0, of star_params False, unfolded if_P [OF big]]
  have a: "np_argmax (dQ_vec star_params star_level ?M 0 (m ?M ! 0 - 1)) < 3"
    using r by blast
  have b: "m (snd (node_step star_params star_level 0 (False, ?M))) ! 0 \<noteq> m ?M ! 0"
    using r by blast
  have c: "node_step star_params star_level 1 (True, star_moved) = (True, star_moved)"
    using node_move_rule [OF wl wm' u1, of star_params True, unfolded if_not_P [OF small]] .
  show ?thesis using wl wm wm' dq st a b c by simp
qed




section \<open>The two iteration caps\<close>

lemma pass_loop_result:
  assumes "pass_loop perm C L n it g M = (Inr (M', it'), g')"
  shows "\<exists>k. it' = it + Suc k \<and> it' \<le> 1000
           \<and> (g', M') = run_passes perm C L n (Suc k) (g, M)
           \<and> \<not> pass_moves perm C L n (run_passes perm C L n k (g, M))
           \<and> (\<forall>j<k. pass_moves perm C L n (run_passes perm C L n j (g, M)))"
  using assms
proof (induction perm C L n it g M rule: pass_loop.induct)
  case (1 perm C L n it g M)
  obtain p g1 where pg: "perm g n = (p, g1)" by (cases "perm g n")
  obtain flag M1 where op: "one_pass C L p M = (flag, M1)" by (cases "one_pass C L p M")
  from "1.prems" have small: "\<not> it + 1 > 1000"
    by (subst (asm) pass_loop.simps) (auto split: if_splits)
  have np: "next_pass perm C L n (g, M) = (g1, M1)"
    by (simp add: next_pass_def pg op)
  have pm: "pass_moves perm C L n (g, M) = flag"
    by (simp add: pass_moves_def pg op)
  show ?case
  proof (cases flag)
    case False
    have "M' = M1 \<and> it' = it + 1 \<and> g' = g1"
      using "1.prems" small pg op False by (subst (asm) pass_loop.simps) simp
    then show ?thesis
      using small np pm False by (intro exI [of _ 0]) simp
  next
    case True
    have "pass_loop perm C L n (it + 1) g1 M1 = (Inr (M', it'), g')"
      using "1.prems" small pg op True by (subst (asm) pass_loop.simps) simp
    from "1.IH" [OF small pg [symmetric] op [symmetric] True this]
    obtain k where k: "it' = it + 1 + Suc k" "it' \<le> 1000"
        "(g', M') = run_passes perm C L n (Suc k) (g1, M1)"
        "\<not> pass_moves perm C L n (run_passes perm C L n k (g1, M1))"
        "\<forall>j<k. pass_moves perm C L n (run_passes perm C L n j (g1, M1))"
      by blast
    have "\<forall>j<Suc k. pass_moves perm C L n (run_passes perm C L n j (g, M))"
    proof (intro allI impI)
      fix j assume "j < Suc k"
      then show "pass_moves perm C L n (run_passes perm C L n j (g, M))"
        using k(5) pm True np by (cases j) auto
    qed
    then show ?thesis
      using k np by (intro exI [of _ "Suc k"]) simp
  qed
qed

lemma pass_loop_abort:
  assumes "\<forall>k. it + k < 1000 \<longrightarrow> pass_moves perm C L n (run_passes perm C L n k (g, M))"
    and "it \<le> 1000"
  shows "pass_loop perm C L n it g M =
           (Inl (NameError ''BCTParamError''), fst (run_passes perm C L n (1000 - it) (g, M)))"
  using assms
proof (induction perm C L n it g M rule: pass_loop.induct)
  case (1 perm C L n it g M)
  show ?case
  proof (cases "it + 1 > 1000")
    case True
    then have "1000 - it = 0" using "1.prems"(2) by simp
    then show ?thesis using True by (subst pass_loop.simps) simp
  next
    case False
    obtain p g1 where pg: "perm g n = (p, g1)" by (cases "perm g n")
    obtain flag M1 where op: "one_pass C L p M = (flag, M1)" by (cases "one_pass C L p M")
    have np: "next_pass perm C L n (g, M) = (g1, M1)"
      by (simp add: next_pass_def pg op)
    have "pass_moves perm C L n (run_passes perm C L n 0 (g, M))"
      using False by (intro "1.prems"(1) [rule_format]) simp
    then have flag: flag by (simp add: pass_moves_def pg op)
    have moves: "\<forall>k. it + 1 + k < 1000 \<longrightarrow> pass_moves perm C L n (run_passes perm C L n k (g1, M1))"
    proof (intro allI impI)
      fix k assume "it + 1 + k < 1000"
      then have "pass_moves perm C L n (run_passes perm C L n (Suc k) (g, M))"
        by (intro "1.prems"(1) [rule_format]) simp
      then show "pass_moves perm C L n (run_passes perm C L n k (g1, M1))"
        by (simp add: np)
    qed
    have le: "it + 1 \<le> 1000" using False by simp
    have "1000 - it = Suc (1000 - (it + 1))" using False by simp
    then have "run_passes perm C L n (1000 - it) (g, M)
                 = run_passes perm C L n (1000 - (it + 1)) (g1, M1)"
      by (simp add: np)
    with "1.IH" [OF False pg [symmetric] op [symmetric] flag moves le]
    show ?thesis using False pg op flag by (subst pass_loop.simps) simp
  qed
qed

lemma pass_loop_return:
  assumes "it + k < 1000"
    and "\<forall>j<k. pass_moves perm C L n (run_passes perm C L n j (g, M))"
    and "\<not> pass_moves perm C L n (run_passes perm C L n k (g, M))"
  shows "pass_loop perm C L n it g M =
           (Inr (snd (run_passes perm C L n (Suc k) (g, M)), it + Suc k),
            fst (run_passes perm C L n (Suc k) (g, M)))"
  using assms
proof (induction k arbitrary: it g M)
  case 0
  obtain p g1 where pg: "perm g n = (p, g1)" by (cases "perm g n")
  obtain flag M1 where op: "one_pass C L p M = (flag, M1)" by (cases "one_pass C L p M")
  have "\<not> flag" using "0.prems"(3) by (simp add: pass_moves_def pg op)
  then show ?case
    using "0.prems"(1) pg op by (subst pass_loop.simps) (simp add: next_pass_def)
next
  case (Suc k)
  obtain p g1 where pg: "perm g n = (p, g1)" by (cases "perm g n")
  obtain flag M1 where op: "one_pass C L p M = (flag, M1)" by (cases "one_pass C L p M")
  have np: "next_pass perm C L n (g, M) = (g1, M1)"
    by (simp add: next_pass_def pg op)
  have "pass_moves perm C L n (run_passes perm C L n 0 (g, M))"
    using Suc.prems(2) by blast
  then have flag: flag by (simp add: pass_moves_def pg op)
  have step: "pass_loop perm C L n it g M = pass_loop perm C L n (it + 1) g1 M1"
    using Suc.prems(1) pg op flag by (subst pass_loop.simps) simp
  have a: "it + 1 + k < 1000" using Suc.prems(1) by simp
  have b: "\<forall>j<k. pass_moves perm C L n (run_passes perm C L n j (g1, M1))"
  proof (intro allI impI)
    fix j assume "j < k"
    then have "Suc j < Suc k" by simp
    then have "pass_moves perm C L n (run_passes perm C L n (Suc j) (g, M))"
      using Suc.prems(2) by blast
    then show "pass_moves perm C L n (run_passes perm C L n j (g1, M1))" by (simp add: np)
  qed
  have c: "\<not> pass_moves perm C L n (run_passes perm C L n k (g1, M1))"
    using Suc.prems(3) by (simp add: np)
  show ?case
    unfolding step using Suc.IH [OF a b c] by (simp add: np)
qed

lemma hier_loop_step:
  assumes "h \<le> 300" and "tol < q H ! h - q H ! (h - 1)"
  shows "hier_loop R C n h g H =
           (case level_body R C n h g H of
              (Inl e, g') \<Rightarrow> (Inl e, g')
            | (Inr H', g') \<Rightarrow> hier_loop R C n (h + 1) g' H')"
  using assms by (subst hier_loop.simps) simp

lemma hier_loop_abort:
  assumes "300 < h" and "tol < q H ! h - q H ! (h - 1)"
  shows "hier_loop R C n h g H = (Inl (NameError ''BCTParamError''), g)"
  using assms by (subst hier_loop.simps) simp

lemma hier_loop_levels:
  assumes "hier_loop R C n h g H = (Inr (h', H'), g')"
  shows "h \<le> h' \<and> (h \<le> 301 \<longrightarrow> h' \<le> 301)"
  using assms
proof (induction R C n h g H rule: hier_loop.induct)
  case (1 R C n h g H)
  show ?case
  proof (cases "tol < q H ! h - q H ! (h - 1)")
    case False
    then have "h' = h" using "1.prems" by (subst (asm) hier_loop.simps) simp
    then show ?thesis by simp
  next
    case True
    from "1.prems" True have small: "\<not> 300 < h"
      by (subst (asm) hier_loop.simps) (auto split: if_splits)
    obtain r g1 where lb: "level_body R C n h g H = (r, g1)" by (cases "level_body R C n h g H")
    show ?thesis
    proof (cases r)
      case (Inl e)
      then show ?thesis
        using "1.prems" True small lb by (subst (asm) hier_loop.simps) simp
    next
      case (Inr H1)
      have "hier_loop R C n (h + 1) g1 H1 = (Inr (h', H'), g')"
        using "1.prems" True small lb Inr by (subst (asm) hier_loop.simps) simp
      from "1.IH" [OF True small lb [symmetric] Inr this] small
      show ?thesis by simp
    qed
  qed
qed

lemma level_body_error:
  assumes "pass_loop (permutation R) C (level_of (W0 H) (W1 H)) (nh H) 0 g
             (singletons (nh H) (level_of (W0 H) (W1 H))) = (Inl e, g1)"
  shows "level_body R C n h g H = (Inl e, g1)"
  using assms by (simp add: level_body_def Let_def)

lemma hier_loop_error:
  assumes "tol < q H ! h - q H ! (h - 1)" and "h \<le> 300"
    and "level_body R C n h g H = (Inl e, g1)"
  shows "hier_loop R C n h g H = (Inl e, g1)"
  using assms by (subst hier_loop.simps) simp

lemma error_returned:
  assumes "louvain_hierarchy R W gam qtype seed e0 g0 = (Inl err, g1)"
  shows "modularity_louvain_und_sign R W gam qtype seed e0 g0 = (Inl err, g1)"
  using assms by (simp add: modularity_louvain_und_sign_def)


lemma id_random_permutation: "permutation id_random g 2 = ([0, Suc 0], Suc g)"
proof -
  have "[0..<2] = [0, Suc 0]" by code_simp
  then show ?thesis by (simp add: id_random_def)
qed

lemma directed_passes:
  "one_pass directed_params directed_level [0, Suc 0] (singletons 2 directed_level)
     = (True, directed_low)"
  "one_pass directed_params directed_level [0, Suc 0] directed_low = (True, directed_high)"
  "one_pass directed_params directed_level [0, Suc 0] directed_high = (True, directed_low)"
  by code_simp+

lemma directed_cycle:
  assumes "snd gM \<in> {singletons 2 directed_level, directed_low, directed_high}"
  shows "snd (run_passes (permutation id_random) directed_params directed_level 2 k gM)
           \<in> {singletons 2 directed_level, directed_low, directed_high}"
  using assms
proof (induction k arbitrary: gM)
  case 0
  then show ?case by simp
next
  case (Suc k)
  have "snd (next_pass (permutation id_random) directed_params directed_level 2 gM)
          \<in> {singletons 2 directed_level, directed_low, directed_high}"
    using Suc.prems by (auto simp: next_pass_def id_random_permutation directed_passes)
  from Suc.IH [OF this] show ?case by simp
qed

lemma directed_moves:
  "pass_moves (permutation id_random) directed_params directed_level 2
     (run_passes (permutation id_random) directed_params directed_level 2 k
        (g, singletons 2 directed_level))"
proof -
  have "snd (run_passes (permutation id_random) directed_params directed_level 2 k
               (g, singletons 2 directed_level))
          \<in> {singletons 2 directed_level, directed_low, directed_high}"
    by (rule directed_cycle) simp
  then show ?thesis
    by (auto simp: pass_moves_def id_random_permutation directed_passes)
qed

lemma id_random_passes:
  "fst (run_passes (permutation id_random) C L n k gM) = fst gM + k"
proof (induction k arbitrary: gM)
  case 0
  then show ?case by simp
next
  case (Suc k)
  have "fst (next_pass (permutation id_random) C L n gM) = Suc (fst gM)"
    by (simp add: next_pass_def id_random_def)
  then show ?case by (simp add: Suc.IH)
qed

lemma directed_scaling:
  "scaling 1 ''neg'' (np_sum (pos_part directed_graph)) (np_sum (neg_part directed_graph))
     = Inr directed_params"
  by code_simp

lemma pair_passes:
  "pass_moves (permutation id_random) pair_params pair_level 2
     (run_passes (permutation id_random) pair_params pair_level 2 0 (0, singletons 2 pair_level))"
  "\<not> pass_moves (permutation id_random) pair_params pair_level 2
     (run_passes (permutation id_random) pair_params pair_level 2 (Suc 0)
        (0, singletons 2 pair_level))"
  "run_passes (permutation id_random) pair_params pair_level 2 (Suc (Suc 0))
     (0, singletons 2 pair_level) = (2, pair_merged)"
  by code_simp+

text \<open>
  C7, at the code. Both caps are where the claim puts them. The pass loop returns after
  \<open>k + 1\<close> passes exactly when pass \<open>k + 1 \<le> 1000\<close> is the first that moves no node, with
  the state after these passes; when each of the first 1000 passes moves a node it
  raises after exactly these 1000 passes (the generator has drawn 1000 permutations),
  and that error ends the level, the hierarchy loop and the function. The hierarchy
  loop computes a level whenever \<open>h \<le> 300\<close> and the gain is above \<open>1e-10\<close>, returns with
  \<open>h \<le> 301\<close>, and raises, computing nothing more, when it is entered with \<open>h > 300\<close> and
  such a gain. An error of the hierarchy is the result of the function: no labels and
  no Q come with it. But the error raised at either cap is \<open>NameError\<close> for the name
  \<open>BCTParamError\<close>, not the error with the message about a directed matrix (or about an
  infinite loop) that the two \<open>raise\<close> statements spell out.
\<close>

theorem caps_raise_name_error:
  "(pass_loop perm C L n 0 g M = (Inr (M', it), g')
      \<longrightarrow> it \<le> 1000 \<and> (g', M') = run_passes perm C L n it (g, M))
   \<and> (k < 1000 \<and> (\<forall>j<k. pass_moves perm C L n (run_passes perm C L n j (g, M)))
        \<and> \<not> pass_moves perm C L n (run_passes perm C L n k (g, M))
      \<longrightarrow> pass_loop perm C L n 0 g M =
            (Inr (snd (run_passes perm C L n (Suc k) (g, M)), Suc k),
             fst (run_passes perm C L n (Suc k) (g, M))))
   \<and> ((\<forall>j<1000. pass_moves perm C L n (run_passes perm C L n j (g, M)))
      \<longrightarrow> pass_loop perm C L n 0 g M =
            (Inl (NameError ''BCTParamError''), fst (run_passes perm C L n 1000 (g, M))))
   \<and> (pass_loop (permutation R) C (level_of (W0 H) (W1 H)) (nh H) 0 g0
          (singletons (nh H) (level_of (W0 H) (W1 H))) = (Inl e, g1)
        \<and> tol < q H ! h - q H ! (h - 1) \<and> h \<le> 300
      \<longrightarrow> hier_loop R C N h g0 H = (Inl e, g1))
   \<and> (hier_loop R C N 1 g0 H = (Inr (h', H'), g1) \<longrightarrow> h' \<le> 301)
   \<and> (h \<le> 300 \<and> tol < q H ! h - q H ! (h - 1)
      \<longrightarrow> hier_loop R C N h g0 H =
            (case level_body R C N h g0 H of
               (Inl e, g') \<Rightarrow> (Inl e, g')
             | (Inr H', g') \<Rightarrow> hier_loop R C N (h + 1) g' H'))
   \<and> (300 < h \<and> tol < q H ! h - q H ! (h - 1)
      \<longrightarrow> hier_loop R C N h g0 H = (Inl (NameError ''BCTParamError''), g0))
   \<and> (louvain_hierarchy R W gam qtype seed e0 g0 = (Inl err, g1)
      \<longrightarrow> modularity_louvain_und_sign R W gam qtype seed e0 g0 = (Inl err, g1))"
proof (intro conjI impI)
  show "it \<le> 1000" and "(g', M') = run_passes perm C L n it (g, M)"
    if "pass_loop perm C L n 0 g M = (Inr (M', it), g')"
    using pass_loop_result [OF that] by auto
  show "pass_loop perm C L n 0 g M =
            (Inr (snd (run_passes perm C L n (Suc k) (g, M)), Suc k),
             fst (run_passes perm C L n (Suc k) (g, M)))"
    if "k < 1000 \<and> (\<forall>j<k. pass_moves perm C L n (run_passes perm C L n j (g, M)))
        \<and> \<not> pass_moves perm C L n (run_passes perm C L n k (g, M))"
    using pass_loop_return [of 0 k perm C L n g M] that by simp
  show "pass_loop perm C L n 0 g M =
            (Inl (NameError ''BCTParamError''), fst (run_passes perm C L n 1000 (g, M)))"
    if "\<forall>j<1000. pass_moves perm C L n (run_passes perm C L n j (g, M))"
    using pass_loop_abort [of 0 perm C L n g M] that by simp
  show "hier_loop R C N h g0 H = (Inl e, g1)"
    if "pass_loop (permutation R) C (level_of (W0 H) (W1 H)) (nh H) 0 g0
          (singletons (nh H) (level_of (W0 H) (W1 H))) = (Inl e, g1)
        \<and> tol < q H ! h - q H ! (h - 1) \<and> h \<le> 300"
    using that by (intro hier_loop_error level_body_error) simp_all
  show "h' \<le> 301" if "hier_loop R C N 1 g0 H = (Inr (h', H'), g1)"
    using hier_loop_levels [OF that] by simp
  show "hier_loop R C N h g0 H =
            (case level_body R C N h g0 H of
               (Inl e, g') \<Rightarrow> (Inl e, g')
             | (Inr H', g') \<Rightarrow> hier_loop R C N (h + 1) g' H')"
    if "h \<le> 300 \<and> tol < q H ! h - q H ! (h - 1)"
    using that by (intro hier_loop_step) simp_all
  show "hier_loop R C N h g0 H = (Inl (NameError ''BCTParamError''), g0)"
    if "300 < h \<and> tol < q H ! h - q H ! (h - 1)"
    using that by (simp add: hier_loop_abort)
  show "modularity_louvain_und_sign R W gam qtype seed e0 g0 = (Inl err, g1)"
    if "louvain_hierarchy R W gam qtype seed e0 g0 = (Inl err, g1)"
    using that by (rule error_returned)
qed

text \<open>
  The witness runs \<open>directed_graph\<close>, on which the two nodes change module in every
  pass: with the example generator, whose state counts the permutations drawn from 3
  on, the function ends with the \<open>NameError\<close> in state 1003, after 1000 passes. On
  \<open>pair_graph\<close> the second pass is the first without a move and the loop returns after
  two passes.
\<close>

theorem caps_raise_name_error_witness:
  "pass_loop (permutation id_random) pair_params pair_level 2 0 0 (singletons 2 pair_level)
      = (Inr (pair_merged, 2), 2)
   \<and> (2, pair_merged)
      = run_passes (permutation id_random) pair_params pair_level 2 2 (0, singletons 2 pair_level)
   \<and> pass_loop (permutation id_random) directed_params directed_level 2 0 3
        (singletons 2 directed_level) = (Inl (NameError ''BCTParamError''), 1003)
   \<and> louvain_hierarchy id_random directed_graph 1 ''neg'' (Some 3) 5 7
      = (Inl (NameError ''BCTParamError''), 1003)
   \<and> modularity_louvain_und_sign id_random directed_graph 1 ''neg'' (Some 3) 5 7
      = (Inl (NameError ''BCTParamError''), 1003)
   \<and> hier_loop id_random pair_params 1 301 0 capped_hier = (Inl (NameError ''BCTParamError''), 0)"
proof -
  note r1 = caps_raise_name_error [THEN conjunct1, rule_format]
  note r2 = caps_raise_name_error [THEN conjunct2, THEN conjunct1, rule_format]
  note r3 = caps_raise_name_error [THEN conjunct2, THEN conjunct2, THEN conjunct1, rule_format]
  note r4 = caps_raise_name_error [THEN conjunct2, THEN conjunct2, THEN conjunct2,
      THEN conjunct1, rule_format]
  note r7 = caps_raise_name_error [THEN conjunct2, THEN conjunct2, THEN conjunct2,
      THEN conjunct2, THEN conjunct2, THEN conjunct2, THEN conjunct1, rule_format]
  note r8 = caps_raise_name_error [THEN conjunct2, THEN conjunct2, THEN conjunct2,
      THEN conjunct2, THEN conjunct2, THEN conjunct2, THEN conjunct2, rule_format]
  let ?S = "singletons 2 pair_level"
  have first_still: "Suc 0 < 1000
      \<and> (\<forall>j<Suc 0. pass_moves (permutation id_random) pair_params pair_level 2
            (run_passes (permutation id_random) pair_params pair_level 2 j (0, ?S)))
      \<and> \<not> pass_moves (permutation id_random) pair_params pair_level 2
            (run_passes (permutation id_random) pair_params pair_level 2 (Suc 0) (0, ?S))"
    using pair_passes(1,2) by simp
  have pl: "pass_loop (permutation id_random) pair_params pair_level 2 0 0 ?S
      = (Inr (pair_merged, 2), 2)"
    using r2 [OF first_still] unfolding pair_passes(3) by (simp add: numeral_2_eq_2)
  have a: "(2, pair_merged)
      = run_passes (permutation id_random) pair_params pair_level 2 2 (0, ?S)"
    by (rule r1 [OF pl, THEN conjunct2])
  have "pass_loop (permutation id_random) directed_params directed_level 2 0 3
          (singletons 2 directed_level)
        = (Inl (NameError ''BCTParamError''),
           fst (run_passes (permutation id_random) directed_params directed_level 2 1000
                  (3, singletons 2 directed_level)))"
    by (rule r3) (rule directed_moves)
  then have b: "pass_loop (permutation id_random) directed_params directed_level 2 0 3
        (singletons 2 directed_level) = (Inl (NameError ''BCTParamError''), 1003)"
    by (simp only: id_random_passes) simp
  let ?H = "\<lparr>W0 = pos_part directed_graph, W1 = neg_part directed_graph, nh = length directed_graph,
             ci = [None, Some (np_arange1 (length directed_graph))], q = [- 1, 0]\<rparr>"
  have n: "length directed_graph = 2" by (simp add: directed_graph_def)
  have c0: "hier_loop id_random directed_params (length directed_graph) 1 3 ?H
      = (Inl (NameError ''BCTParamError''), 1003)"
    by (rule r4) (use b n in \<open>simp add: directed_level_def tol_def\<close>)
  have c1: "louvain_hierarchy id_random directed_graph 1 ''neg'' (Some 3) 5 7
      = (Inl (NameError ''BCTParamError''), 1003)"
    using c0
    by (simp add: louvain_hierarchy_def Let_def directed_scaling id_random_seed)
  have c: "modularity_louvain_und_sign id_random directed_graph 1 ''neg'' (Some 3) 5 7
      = (Inl (NameError ''BCTParamError''), 1003)"
    by (rule r8 [OF c1])
  have h: "(300::nat) < 301 \<and> tol < q capped_hier ! 301 - q capped_hier ! (301 - 1)"
    by code_simp
  have d: "hier_loop id_random pair_params 1 301 0 capped_hier
      = (Inl (NameError ''BCTParamError''), 0)"
    by (rule r7 [OF h])
  show ?thesis using pl a b c1 c d by simp
qed


section \<open>The hierarchy loop\<close>

subsection \<open>The trace of level values\<close>

lemma length_m_run_passes:
  "length (m (snd (run_passes perm C L n k gM))) = length (m (snd gM))"
proof (induction k arbitrary: gM)
  case 0
  then show ?case by simp
next
  case (Suc k)
  show ?case
    by (simp add: Suc.IH) (simp add: next_pass_def length_m_one_pass split: prod.splits)
qed

lemma length_m_pass_loop:
  assumes "pass_loop perm C L n it g M = (Inr (M', it'), g')"
  shows "length (m M') = length (m M)"
proof -
  from pass_loop_result [OF assms] obtain k
    where "(g', M') = run_passes perm C L n (Suc k) (g, M)" by blast
  then have "M' = snd (run_passes perm C L n (Suc k) (g, M))" by (metis snd_conv)
  then show ?thesis by (simp only: length_m_run_passes snd_conv)
qed

lemma level_body_Inr:
  assumes "level_body R C n h g H = (Inr H', g')"
  shows "\<exists>M it. pass_loop (permutation R) C (level_of (W0 H) (W1 H)) (nh H) 0 g
                   (singletons (nh H) (level_of (W0 H) (W1 H))) = (Inr (M, it), g')
               \<and> level_finish C n h H M = Inr H'"
  using assms by (auto simp: level_body_def Let_def split: prod.splits sum.splits)

lemma append_update_last: "length xs = k \<Longrightarrow> (xs @ [a])[k := b] = xs @ [b]"
  by auto

lemma level_finish_q:
  assumes "level_finish C n h H M = Inr H'" and "length (q H) = h + 1"
  shows "q H' = q H @ [level_q C (W0 H') (W1 H')]"
  using assms by (auto simp: level_finish_def Let_def append_update_last split: if_splits)

lemma level_body_q:
  assumes "level_body R C n h g H = (Inr H', g')" and "length (q H) = h + 1"
  shows "q H' = q H @ [level_q C (W0 H') (W1 H')]"
  using level_body_Inr [OF assms(1)] level_finish_q assms(2) by blast

lemma hier_loop_trace:
  assumes "hier_loop R C n h g H = (Inr (h', H'), g')"
    and "length (q H) = h + 1"
    and "\<forall>i. 1 \<le> i \<and> i < h \<longrightarrow> tol < q H ! i - q H ! (i - 1)"
  shows "length (q H') = h' + 1 \<and> h \<le> h' \<and> take (h + 1) (q H') = q H
       \<and> (\<forall>i. 1 \<le> i \<and> i < h' \<longrightarrow> tol < q H' ! i - q H' ! (i - 1))
       \<and> \<not> tol < q H' ! h' - q H' ! (h' - 1)"
  using assms
proof (induction R C n h g H rule: hier_loop.induct)
  case (1 R C n h g H)
  show ?case
  proof (cases "tol < q H ! h - q H ! (h - 1)")
    case False
    then have "h' = h \<and> H' = H" using "1.prems"(1) by (subst (asm) hier_loop.simps) simp
    then show ?thesis using "1.prems"(2,3) False by simp
  next
    case True
    from "1.prems"(1) True have small: "\<not> 300 < h"
      by (subst (asm) hier_loop.simps) (auto split: if_splits)
    obtain r g1 where lb: "level_body R C n h g H = (r, g1)" by (cases "level_body R C n h g H")
    show ?thesis
    proof (cases r)
      case (Inl e)
      then show ?thesis
        using "1.prems"(1) True small lb by (subst (asm) hier_loop.simps) simp
    next
      case (Inr H1)
      have rec: "hier_loop R C n (h + 1) g1 H1 = (Inr (h', H'), g')"
        using "1.prems"(1) True small lb Inr by (subst (asm) hier_loop.simps) simp
      have q1: "q H1 = q H @ [level_q C (W0 H1) (W1 H1)]"
        using lb Inr "1.prems"(2) by (intro level_body_q [of R C n h g H H1 g1]) simp_all
      have len1: "length (q H1) = h + 1 + 1" using q1 "1.prems"(2) by simp
      have inc1: "\<forall>i. 1 \<le> i \<and> i < h + 1 \<longrightarrow> tol < q H1 ! i - q H1 ! (i - 1)"
      proof (intro allI impI)
        fix i assume i: "1 \<le> i \<and> i < h + 1"
        show "tol < q H1 ! i - q H1 ! (i - 1)"
        proof (cases "i = h")
          case True
          with \<open>tol < q H ! h - q H ! (h - 1)\<close> "1.prems"(2) q1 i show ?thesis
            by (auto simp: nth_append)
        next
          case False
          with i have "i < h" by simp
          with i "1.prems"(2,3) q1 show ?thesis by (auto simp: nth_append)
        qed
      qed
      from "1.IH" [OF True small lb [symmetric] Inr rec len1 inc1]
      have IH: "length (q H') = h' + 1" "h + 1 \<le> h'" "take (h + 1 + 1) (q H') = q H1"
        "\<forall>i. 1 \<le> i \<and> i < h' \<longrightarrow> tol < q H' ! i - q H' ! (i - 1)"
        "\<not> tol < q H' ! h' - q H' ! (h' - 1)" by simp_all
      have "take (h + 1) (q H') = take (h + 1) (take (h + 1 + 1) (q H'))" by simp
      also have "\<dots> = q H" using IH(3) q1 "1.prems"(2) by simp
      finally show ?thesis using IH by simp
    qed
  qed
qed

lemma chain_le:
  fixes xs :: "real list"
  assumes "\<forall>i. 1 \<le> i \<and> i < k \<longrightarrow> tol < xs ! i - xs ! (i - 1)"
  shows "j < k \<Longrightarrow> i \<le> j \<Longrightarrow> xs ! i \<le> xs ! j"
proof (induction j)
  case 0
  then show ?case by simp
next
  case (Suc j)
  show ?case
  proof (cases "i = Suc j")
    case True
    then show ?thesis by simp
  next
    case False
    with Suc.prems have "i \<le> j" "j < k" by simp_all
    then have "xs ! i \<le> xs ! j" using Suc.IH by simp
    moreover have "tol < xs ! Suc j - xs ! j" using assms Suc.prems by force
    ultimately show ?thesis using tol_pos by simp
  qed
qed

lemma louvain_hierarchy_Inr:
  assumes "louvain_hierarchy R W gam qtype seed e g0 = (Inr (h, H), g)"
  shows "\<exists>C. scaling gam qtype (np_sum (pos_part W)) (np_sum (neg_part W)) = Inr C
           \<and> hier_loop R C (length W) 1 (seeded R seed e)
                \<lparr>W0 = pos_part W, W1 = neg_part W, nh = length W,
                  ci = [None, Some (np_arange1 (length W))], q = [- 1, 0]\<rparr> = (Inr (h, H), g)"
  using assms
  by (auto simp: louvain_hierarchy_def np_random_seed_def Let_def split: sum.splits if_splits)

text \<open>
  C3, as the code has it. When the function returns, \<open>h\<close> is the final hierarchy index and
  \<open>q\<close> holds \<open>h + 1\<close> values: the initial entries \<open>q[0] = -1\<close> and \<open>q[1] = 0\<close>, then one
  value for each computed level, and at least one level has been computed. Every
  consecutive pair before the last differs by more than \<open>1e-10\<close>, so the values increase
  up to \<open>q[h - 1]\<close>. The last value exceeds \<open>q[h - 1]\<close> by at most \<open>1e-10\<close>; nothing bounds
  it from below. The returned Q is the last value, and the largest value of the list is
  the larger of the last two.
\<close>

theorem trace_shape:
  assumes "louvain_hierarchy R W gam qtype seed e g0 = (Inr (h, H), g)"
  shows "2 \<le> h \<and> length (q H) = h + 1 \<and> q H ! 0 = - 1 \<and> q H ! 1 = 0
       \<and> (\<forall>i. 1 \<le> i \<and> i < h \<longrightarrow> tol < q H ! i - q H ! (i - 1))
       \<and> q H ! h - q H ! (h - 1) \<le> tol
       \<and> (\<forall>i\<le>h. q H ! i \<le> max (q H ! (h - 1)) (q H ! h))
       \<and> modularity_louvain_und_sign R W gam qtype seed e g0 =
           (Inr (renumber (the (last (ci H))), q H ! h), g)"
proof -
  from louvain_hierarchy_Inr [OF assms] obtain C where
    hl: "hier_loop R C (length W) 1 (seeded R seed e)
           \<lparr>W0 = pos_part W, W1 = neg_part W, nh = length W,
             ci = [None, Some (np_arange1 (length W))], q = [- 1, 0]\<rparr> = (Inr (h, H), g)"
    by blast
  from hier_loop_trace [OF hl]
  have len: "length (q H) = h + 1" and h1: "1 \<le> h" and pre: "take (1 + 1) (q H) = [- 1, 0]"
    and inc: "\<forall>i. 1 \<le> i \<and> i < h \<longrightarrow> tol < q H ! i - q H ! (i - 1)"
    and stop: "\<not> tol < q H ! h - q H ! (h - 1)" by simp_all
  have q0: "q H ! 0 = - 1" and q1: "q H ! 1 = 0"
    using pre len h1 by (metis nth_take nth_Cons_0 zero_less_numeral one_add_one,
        metis nth_take nth_Cons_0 nth_Cons_Suc One_nat_def one_less_numeral_iff one_add_one semiring_norm(76))
  have h2: "2 \<le> h"
  proof (rule ccontr)
    assume "\<not> 2 \<le> h"
    with h1 have "h = 1" by simp
    with stop q0 q1 show False by (simp add: tol_def)
  qed
  have top: "\<forall>i\<le>h. q H ! i \<le> max (q H ! (h - 1)) (q H ! h)"
  proof (intro allI impI)
    fix i assume i: "i \<le> h"
    show "q H ! i \<le> max (q H ! (h - 1)) (q H ! h)"
    proof (cases "i = h")
      case True
      then show ?thesis by simp
    next
      case False
      with i h1 have "i \<le> h - 1" "h - 1 < h" by simp_all
      then have "q H ! i \<le> q H ! (h - 1)" using chain_le [OF inc] by blast
      then show ?thesis by simp
    qed
  qed
  have lastq: "last (q H) = q H ! h"
    using len by (metis add_diff_cancel_right' last_conv_nth length_0_conv add_is_0 zero_neq_one)
  have ret: "modularity_louvain_und_sign R W gam qtype seed e g0 =
           (Inr (renumber (the (last (ci H))), q H ! h), g)"
    using assms lastq by (simp add: modularity_louvain_und_sign_def)
  show ?thesis using h2 len q0 q1 inc stop top ret by simp
qed

subsection \<open>A run whose last level lowers the value\<close>

text \<open>
  On \<open>path_graph\<close> with \<open>gamma = 1 / 10\<close> the first level finds the modules \<open>{0, 1}\<close> and
  \<open>{2, 3}\<close> with value \<open>3 / 10\<close>. At the second level the move that merges them has a
  positive delta, which is computed with \<open>gamma\<close>, while the level value is computed
  without it: the merged partition has value 0.
\<close>

lemma id_random_permutation4: "permutation id_random g 4 = ([0, Suc 0, 2, 3], Suc g)"
proof -
  have "[0..<4] = [0, Suc 0, 2, 3]" by code_simp
  then show ?thesis by (simp add: id_random_def)
qed

lemma path_scaling:
  "scaling (1 / 10) ''sta'' (np_sum (pos_part path_graph)) (np_sum (neg_part path_graph))
     = Inr path_params"
  by code_simp

lemma path_passes:
  "one_pass path_params path_level [0, Suc 0, 2, 3] (singletons 4 path_level) = (True, path_pairs)"
  "one_pass path_params path_level [0, Suc 0, 2, 3] path_pairs = (False, path_pairs)"
  "one_pass path_params (level_of (W0 path_second) (W1 path_second)) [0, Suc 0]
     (singletons 2 (level_of (W0 path_second) (W1 path_second))) = (True, path_merged)"
  "one_pass path_params (level_of (W0 path_second) (W1 path_second)) [0, Suc 0] path_merged
     = (False, path_merged)"
  by code_simp+

lemma path_finish:
  "level_finish path_params 4 (Suc 0) path_start path_pairs = Inr path_second"
  "level_finish path_params 4 2 path_second path_merged = Inr path_third"
  by code_simp+

lemma path_pass_loop1:
  "pass_loop (permutation id_random) path_params path_level 4 0 g (singletons 4 path_level)
     = (Inr (path_pairs, 2), Suc (Suc g))"
  by (subst pass_loop.simps, simp add: id_random_permutation4 path_passes,
      subst pass_loop.simps, simp add: id_random_permutation4 path_passes)

lemma path_pass_loop2:
  "pass_loop (permutation id_random) path_params (level_of (W0 path_second) (W1 path_second)) 2 0 g
     (singletons 2 (level_of (W0 path_second) (W1 path_second)))
     = (Inr (path_merged, 2), Suc (Suc g))"
  by (subst pass_loop.simps, simp add: id_random_permutation path_passes,
      subst pass_loop.simps, simp add: id_random_permutation path_passes)

lemma path_start_sel:
  "W0 path_start = pos_part path_graph" "W1 path_start = neg_part path_graph"
  "nh path_start = 4" "q path_start = [- 1, 0]" "length path_graph = 4"
  by (simp_all add: path_start_def path_graph_def)

lemma path_level1: "level_body id_random path_params 4 (Suc 0) 0 path_start = (Inr path_second, 2)"
  by (simp add: level_body_def Let_def path_start_sel path_level_def [symmetric]
      path_pass_loop1 path_finish)

lemma path_second_sel: "nh path_second = 2" "q path_second = [- 1, 0, 3 / 10]"
  by (simp_all add: path_second_def)

lemma path_level2: "level_body id_random path_params 4 2 2 path_second = (Inr path_third, 4)"
  by (simp add: level_body_def Let_def path_second_sel path_pass_loop2 path_finish)

lemma path_third_sel: "q path_third = [- 1, 0, 3 / 10, 0]"
  "ci path_third = [None, Some [1, 2, 3, 4], Some [1, 1, 2, 2], Some [1, 1, 1, 1]]"
  by (simp_all add: path_third_def)

lemma path_hier_loop:
  "hier_loop id_random path_params 4 (Suc 0) 0 path_start = (Inr (3, path_third), 4)"
proof -
  have a: "hier_loop id_random path_params 4 (Suc 0) 0 path_start
         = hier_loop id_random path_params 4 2 2 path_second"
    by (subst hier_loop.simps) (simp add: path_start_sel path_level1 tol_def numeral_2_eq_2 [symmetric])
  have b: "hier_loop id_random path_params 4 2 2 path_second
         = hier_loop id_random path_params 4 3 4 path_third"
    by (subst hier_loop.simps) (simp add: path_second_sel path_level2 tol_def)
  have c: "hier_loop id_random path_params 4 3 4 path_third = (Inr (3, path_third), 4)"
    by (subst hier_loop.simps) (simp add: path_third_sel tol_def)
  show ?thesis by (simp only: a b c)
qed

lemma path_hierarchy:
  "louvain_hierarchy id_random path_graph (1 / 10) ''sta'' (Some 0) 0 0 = (Inr (3, path_third), 4)"
proof -
  have "louvain_hierarchy id_random path_graph (1 / 10) ''sta'' (Some 0) 0 0
      = hier_loop id_random path_params (length path_graph) 1 0 path_start"
    by (simp add: louvain_hierarchy_def Let_def path_scaling id_random_seed path_start_def)
  also have "\<dots> = hier_loop id_random path_params 4 (Suc 0) 0 path_start"
    by (simp add: path_start_sel(5))
  also have "\<dots> = (Inr (3, path_third), 4)" by (rule path_hier_loop)
  finally show ?thesis .
qed

lemma path_labels: "renumber (the (last (ci path_third))) = [1, 1, 1, 1]"
  by code_simp

lemma path_last_q: "last (q path_third) = 0" "q path_third ! 3 = 0"
  by code_simp+

lemma path_result:
  "modularity_louvain_und_sign id_random path_graph (1 / 10) ''sta'' (Some 0) 0 0
     = (Inr ([1, 1, 1, 1], 0), 4)"
  by (simp add: modularity_louvain_und_sign_def path_hierarchy path_labels path_last_q)

theorem trace_shape_witness:
  "louvain_hierarchy id_random path_graph (1 / 10) ''sta'' (Some 0) 0 0 = (Inr (3, path_third), 4)
   \<and> (2::nat) \<le> 3 \<and> length (q path_third) = 3 + 1
   \<and> q path_third ! 3 - q path_third ! (3 - 1) \<le> tol
   \<and> modularity_louvain_und_sign id_random path_graph (1 / 10) ''sta'' (Some 0) 0 0
       = (Inr (renumber (the (last (ci path_third))), q path_third ! 3), 4)
   \<and> renumber (the (last (ci path_third))) = [1, 1, 1, 1] \<and> q path_third ! 3 = 0"
proof -
  note r = trace_shape [OF path_hierarchy]
  have a: "length (q path_third) = 3 + 1" using r by blast
  have b: "q path_third ! 3 - q path_third ! (3 - 1) \<le> tol" using r by blast
  have c: "modularity_louvain_und_sign id_random path_graph (1 / 10) ''sta'' (Some 0) 0 0
       = (Inr (renumber (the (last (ci path_third))), q path_third ! 3), 4)" using r by blast
  show ?thesis using path_hierarchy a b c path_labels path_last_q(2) by simp
qed

text \<open>
  C3, as the specification states it: the trace of this run is \<open>-1, 0, 3 / 10, 0\<close>. It is
  not non-decreasing, and the returned Q, 0, is below the value \<open>3 / 10\<close> of the level
  before.
\<close>

theorem trace_counterexample:
  "louvain_hierarchy id_random path_graph (1 / 10) ''sta'' (Some 0) 0 0 = (Inr (3, path_third), 4)
   \<and> modularity_louvain_und_sign id_random path_graph (1 / 10) ''sta'' (Some 0) 0 0
       = (Inr ([1, 1, 1, 1], 0), 4)
   \<and> q path_third = [- 1, 0, 3 / 10, 0]
   \<and> q path_third ! 3 < q path_third ! 2
   \<and> \<not> sorted (q path_third)
   \<and> q path_third ! 3 < Max (set (q path_third))"
proof -
  have b: "q path_third ! 3 < q path_third ! 2" by code_simp
  have c: "\<not> sorted (q path_third)" by code_simp
  have d: "q path_third ! 3 < Max (set (q path_third))" by code_simp
  show ?thesis by (intro conjI path_hierarchy path_result path_third_sel(1) b c d)
qed


subsection \<open>The labels of every level\<close>

lemma index_of_image:
  assumes "distinct ys"
  shows "(\<lambda>x. index_of x ys) ` set ys = {0..<length ys}"
proof
  show "(\<lambda>x. index_of x ys) ` set ys \<subseteq> {0..<length ys}"
    by (auto simp: index_of_less)
  show "{0..<length ys} \<subseteq> (\<lambda>x. index_of x ys) ` set ys"
  proof
    fix i assume "i \<in> {0..<length ys}"
    then have i: "i < length ys" by simp
    then have "index_of (ys ! i) ys = i" using assms by (simp add: index_of_nth)
    moreover have "ys ! i \<in> set ys" using i by simp
    ultimately show "i \<in> (\<lambda>x. index_of x ys) ` set ys" by (metis imageI)
  qed
qed

lemma length_renumber: "length (renumber xs) = length xs"
  by (simp add: renumber_def np_unique_inverse_def)

lemma set_renumber: "set (renumber xs) = {1..card (set xs)}"
proof -
  let ?ys = "sort (remdups xs)"
  have d: "distinct ?ys" and s: "set ?ys = set xs" by simp_all
  have len: "length ?ys = card (set xs)"
    using distinct_card [OF d] s by simp
  have "set (renumber xs) = Suc ` ((\<lambda>x. index_of x ?ys) ` set ?ys)"
    unfolding renumber_def np_unique_inverse_def s by (simp add: image_image)
  also have "\<dots> = Suc ` {0..<card (set xs)}"
    using index_of_image [OF d] len by simp
  also have "\<dots> = {1..card (set xs)}"
    by (simp add: image_Suc_atLeastLessThan atLeastLessThanSuc_atLeastAtMost)
  finally show ?thesis .
qed

lemma np_max_renumber:
  assumes "xs \<noteq> []"
  shows "np_max (renumber xs) = card (set xs)"
proof -
  have "0 < card (set xs)" using assms by (simp add: card_gt_0_iff)
  then have "Max {1..card (set xs)} = card (set xs)"
    by (intro Max_eqI) auto
  then show ?thesis by (simp add: np_max_def set_renumber)
qed

lemma length_relabel_step:
  "length cur = length prev \<Longrightarrow> length (relabel_step ms prev u cur) = length prev"
  by (simp add: relabel_step_def)

lemma relabel_Suc: "relabel (Suc k) ms prev cur = relabel_step ms prev k (relabel k ms prev cur)"
  by (simp add: relabel_def)

lemma length_relabel:
  "length cur = length prev \<Longrightarrow> length (relabel k ms prev cur) = length prev"
  by (induction k) (simp_all add: relabel_Suc length_relabel_step, simp add: relabel_def)

lemma relabel_nth:
  assumes "length cur = length prev" and "i < length prev"
  shows "relabel k ms prev cur ! i =
         (if 1 \<le> prev ! i \<and> prev ! i \<le> k then ms ! (prev ! i - 1) else cur ! i)"
proof (induction k)
  case 0
  then show ?case by (simp add: relabel_def)
next
  case (Suc k)
  have len: "length (relabel k ms prev cur) = length prev"
    by (rule length_relabel [OF assms(1)])
  show ?case
    using assms(2) len Suc by (auto simp: relabel_Suc relabel_step_def)
qed

lemma set_relabel:
  assumes lp: "length prev = n" and sp: "set prev = {1..k}" and lm: "length ms = k"
  shows "set (relabel k ms prev (replicate n 0)) = set ms"
proof -
  let ?new = "relabel k ms prev (replicate n 0)"
  have len: "length ?new = n" using lp by (simp add: length_relabel)
  have nth: "?new ! i = ms ! (prev ! i - 1)" if "i < n" for i
  proof -
    have "prev ! i \<in> {1..k}" using that lp sp by (metis nth_mem)
    then show ?thesis using relabel_nth [of "replicate n 0" prev i k ms] that lp by simp
  qed
  show ?thesis
  proof
    show "set ?new \<subseteq> set ms"
    proof
      fix x assume "x \<in> set ?new"
      then obtain i where i: "i < n" "x = ?new ! i" using len by (metis in_set_conv_nth)
      have "prev ! i \<in> {1..k}" using i lp sp by (metis nth_mem)
      then have "prev ! i - 1 < length ms" using lm by auto
      then show "x \<in> set ms" using i nth by simp
    qed
    show "set ms \<subseteq> set ?new"
    proof
      fix x assume "x \<in> set ms"
      then obtain j where j: "j < k" "x = ms ! j" using lm by (metis in_set_conv_nth)
      then have "j + 1 \<in> set prev" using sp by simp
      then obtain i where i: "i < n" "prev ! i = j + 1" using lp by (metis in_set_conv_nth)
      then have "?new ! i = x" using nth j by simp
      then show "x \<in> set ?new" using i len by (metis nth_mem)
    qed
  qed
qed

lemma level_finish_ci:
  assumes lf: "level_finish C n h H M = Inr H'"
    and lc: "length (ci H) = h + 1" and prev: "ci H ! h = Some prev"
    and lp: "length prev = n" and sp: "set prev = {1..nh H}" and lm: "length (m M) = nh H"
  shows "\<exists>new. ci H' = ci H @ [Some new] \<and> length new = n \<and> set new = {1..nh H'}"
proof -
  let ?ms = "renumber (m M)"
  let ?new = "relabel (nh H) ?ms prev (replicate n 0)"
  from lf have ne: "?ms \<noteq> []" by (auto simp: level_finish_def Let_def split: if_splits)
  then have mne: "m M \<noteq> []" by (auto simp: renumber_def np_unique_inverse_def)
  from lf ne have nh': "nh H' = np_max ?ms"
    by (auto simp: level_finish_def Let_def split: if_splits)
  have "ci H' = (ci H @ [Some (replicate n 0)])[h + 1 := Some (relabel (nh H) ?ms
          (the ((ci H @ [Some (replicate n 0)]) ! (h + 1 - 1)))
          (the ((ci H @ [Some (replicate n 0)]) ! (h + 1))))]"
    using lf ne by (auto simp: level_finish_def Let_def split: if_splits)
  moreover have "(ci H @ [Some (replicate n 0)]) ! (h + 1 - 1) = Some prev"
    using lc prev by (simp add: nth_append)
  moreover have "(ci H @ [Some (replicate n 0)]) ! (h + 1) = Some (replicate n 0)"
    using lc by (simp add: nth_append)
  ultimately have c: "ci H' = ci H @ [Some ?new]"
    using lc by (simp add: append_update_last)
  have l: "length ?new = n" using lp by (simp add: length_relabel)
  have "set ?new = set ?ms"
    using lp sp lm by (intro set_relabel) (simp_all add: length_renumber)
  also have "\<dots> = {1..nh H'}"
    using nh' np_max_renumber [OF mne] by (simp add: set_renumber)
  finally show ?thesis using c l by blast
qed

lemma contiguous_bound:
  assumes "set xs = {1..k}"
  shows "k \<le> length xs"
proof -
  have "k = card (set xs)" using assms by simp
  then show ?thesis using card_length [of xs] by simp
qed

lemma level_body_ci_ok:
  assumes lb: "level_body R C n h g H = (Inr H', g')" and ok: "ci_ok n h H" and h: "1 \<le> h"
  shows "ci_ok n (h + 1) H'"
proof -
  from level_body_Inr [OF lb] obtain M it where
    pl: "pass_loop (permutation R) C (level_of (W0 H) (W1 H)) (nh H) 0 g
           (singletons (nh H) (level_of (W0 H) (W1 H))) = (Inr (M, it), g')"
    and lf: "level_finish C n h H M = Inr H'" by blast
  have lm: "length (m M) = nh H"
    using length_m_pass_loop [OF pl] by (simp add: singletons_def np_arange1_def)
  from ok h obtain prev where prev: "ci H ! h = Some prev" "set prev = {1..nh H}"
    and lc: "length (ci H) = h + 1" by (auto simp: ci_ok_def)
  from ok h prev(1) have lp: "length prev = n" by (fastforce simp: ci_ok_def)
  from level_finish_ci [OF lf lc prev(1) lp prev(2) lm] obtain new where
    new: "ci H' = ci H @ [Some new]" "length new = n" "set new = {1..nh H'}" by blast
  have kn: "nh H' \<le> n" using contiguous_bound [OF new(3)] new(2) by simp
  have "\<exists>xs k. ci H' ! i = Some xs \<and> length xs = n \<and> k \<le> n \<and> set xs = {1..k}"
    if "1 \<le> i \<and> i \<le> h + 1" for i
  proof (cases "i = h + 1")
    case True
    then show ?thesis using new kn lc by (auto simp: nth_append)
  next
    case False
    with that have "1 \<le> i \<and> i \<le> h" by simp
    then show ?thesis using ok new(1) lc by (simp add: ci_ok_def nth_append)
  qed
  moreover have "\<exists>xs. ci H' ! (h + 1) = Some xs \<and> set xs = {1..nh H'}"
    using new lc by (auto simp: nth_append)
  moreover have "length (ci H') = h + 1 + 1" using new(1) lc by simp
  ultimately show ?thesis unfolding ci_ok_def by blast
qed

lemma hier_loop_ci_ok:
  assumes "hier_loop R C n h g H = (Inr (h', H'), g')" and "ci_ok n h H" and "1 \<le> h"
  shows "ci_ok n h' H' \<and> 1 \<le> h'"
  using assms
proof (induction R C n h g H rule: hier_loop.induct)
  case (1 R C n h g H)
  show ?case
  proof (cases "tol < q H ! h - q H ! (h - 1)")
    case False
    then have "h' = h \<and> H' = H" using "1.prems"(1) by (subst (asm) hier_loop.simps) simp
    then show ?thesis using "1.prems"(2,3) by simp
  next
    case True
    from "1.prems"(1) True have small: "\<not> 300 < h"
      by (subst (asm) hier_loop.simps) (auto split: if_splits)
    obtain r g1 where lb: "level_body R C n h g H = (r, g1)" by (cases "level_body R C n h g H")
    show ?thesis
    proof (cases r)
      case (Inl e)
      then show ?thesis
        using "1.prems"(1) True small lb by (subst (asm) hier_loop.simps) simp
    next
      case (Inr H1)
      have rec: "hier_loop R C n (h + 1) g1 H1 = (Inr (h', H'), g')"
        using "1.prems"(1) True small lb Inr by (subst (asm) hier_loop.simps) simp
      have ok1: "ci_ok n (h + 1) H1"
        using lb Inr "1.prems"(2,3) by (intro level_body_ci_ok [of R C n h g H H1 g1]) simp_all
      from "1.IH" [OF True small lb [symmetric] Inr rec ok1] show ?thesis by simp
    qed
  qed
qed

lemma ci_ok_start:
  "ci_ok (length W) 1 \<lparr>W0 = A, W1 = B, nh = length W,
      ci = [None, Some (np_arange1 (length W))], q = qs\<rparr>"
proof -
  have "set (np_arange1 (length W)) = {1..length W}"
    by (simp add: np_arange1_def image_Suc_atLeastLessThan atLeastLessThanSuc_atLeastAtMost)
  moreover have "length (np_arange1 (length W)) = length W" by (simp add: np_arange1_def)
  ultimately show ?thesis by (auto simp: ci_ok_def)
qed

text \<open>
  C5. When the function returns, the returned vector is the renumbering of the last
  level's labels: it has one label for each of the \<open>n = len(W)\<close> original nodes and its
  labels are exactly \<open>1..k\<close> for some \<open>k \<le> n\<close>. The same holds for the labelling \<open>ci[i]\<close> of
  every level \<open>i \<ge> 1\<close> of the hierarchy, which is the composition of the previous level's
  labelling with the renumbered modules of level \<open>i\<close>.
\<close>

theorem labels_contiguous:
  assumes "louvain_hierarchy R W gam qtype seed e g0 = (Inr (h, H), g)"
  shows "modularity_louvain_und_sign R W gam qtype seed e g0 =
           (Inr (renumber (the (last (ci H))), last (q H)), g)
       \<and> length (renumber (the (last (ci H)))) = length W
       \<and> (\<exists>k\<le>length W. set (renumber (the (last (ci H)))) = {1..k})
       \<and> (\<forall>i. 1 \<le> i \<and> i < length (ci H) \<longrightarrow>
            (\<exists>xs k. ci H ! i = Some xs \<and> length xs = length W \<and> k \<le> length W
                     \<and> set xs = {1..k}))"
proof -
  from louvain_hierarchy_Inr [OF assms] obtain C where
    hl: "hier_loop R C (length W) 1 (seeded R seed e)
           \<lparr>W0 = pos_part W, W1 = neg_part W, nh = length W,
             ci = [None, Some (np_arange1 (length W))], q = [- 1, 0]\<rparr> = (Inr (h, H), g)"
    by blast
  from hier_loop_ci_ok [OF hl ci_ok_start] have ok: "ci_ok (length W) h H" and h: "1 \<le> h"
    by simp_all
  have lc: "length (ci H) = h + 1" using ok by (simp add: ci_ok_def)
  have levels: "\<forall>i. 1 \<le> i \<and> i < length (ci H) \<longrightarrow>
            (\<exists>xs k. ci H ! i = Some xs \<and> length xs = length W \<and> k \<le> length W
                     \<and> set xs = {1..k})"
    using ok lc by (simp add: ci_ok_def)
  have "last (ci H) = ci H ! h"
    using lc by (metis add_diff_cancel_right' last_conv_nth length_0_conv add_is_0 zero_neq_one)
  moreover obtain xs where xs: "ci H ! h = Some xs" "length xs = length W"
    using levels lc h by (metis less_add_one)
  ultimately have l: "the (last (ci H)) = xs" by simp
  have len: "length (renumber (the (last (ci H)))) = length W"
    using l xs(2) by (simp add: length_renumber)
  have "card (set xs) \<le> length W" using card_length [of xs] xs(2) by simp
  then have cont: "\<exists>k\<le>length W. set (renumber (the (last (ci H)))) = {1..k}"
    using l set_renumber [of xs] by auto
  have ret: "modularity_louvain_und_sign R W gam qtype seed e g0 =
           (Inr (renumber (the (last (ci H))), last (q H)), g)"
    using assms by (simp add: modularity_louvain_und_sign_def)
  show ?thesis using ret len cont levels by blast
qed

theorem labels_contiguous_witness:
  "louvain_hierarchy id_random path_graph (1 / 10) ''sta'' (Some 0) 0 0 = (Inr (3, path_third), 4)
   \<and> modularity_louvain_und_sign id_random path_graph (1 / 10) ''sta'' (Some 0) 0 0 =
        (Inr (renumber (the (last (ci path_third))), last (q path_third)), 4)
   \<and> length (renumber (the (last (ci path_third)))) = length path_graph
   \<and> renumber (the (last (ci path_third))) = [1, 1, 1, 1]
   \<and> ci path_third = [None, Some [1, 2, 3, 4], Some [1, 1, 2, 2], Some [1, 1, 1, 1]]"
proof -
  note r = labels_contiguous [OF path_hierarchy]
  have a: "modularity_louvain_und_sign id_random path_graph (1 / 10) ''sta'' (Some 0) 0 0 =
        (Inr (renumber (the (last (ci path_third))), last (q path_third)), 4)"
    using r by blast
  have b: "length (renumber (the (last (ci path_third)))) = length path_graph"
    using r by blast
  show ?thesis by (intro conjI path_hierarchy a b path_labels path_third_sel(2))
qed


section \<open>Negative-only modularity of a matrix without negative entries\<close>

lemma neg_part_nonneg:
  assumes "nonneg W"
  shows "np_sum (neg_part W) = 0"
proof -
  have h: "\<forall>r\<in>set W. \<forall>x\<in>set r. 0 \<le> x" using assms by (simp add: nonneg_def list_all_iff)
  have "sum_list (map (\<lambda>x. - x * (if x < 0 then 1 else 0)) r) = 0" if "r \<in> set W" for r
  proof -
    have "\<And>x. x \<in> set r \<Longrightarrow> - x * (if x < 0 then 1 else 0) = 0"
      using h that by fastforce
    then have "map (\<lambda>x. - x * (if x < 0 then 1 else 0)) r = map (\<lambda>x. 0) r"
      by (intro map_cong refl)
    then show ?thesis by (simp only: sum_list_0)
  qed
  then have "map sum_list (neg_part W) = map (\<lambda>r. 0) W"
    by (simp add: neg_part_def)
  then show ?thesis by (simp add: np_sum_def)
qed

lemma scaling_neg_zero:
  "scaling gam ''neg'' a 0 =
     Inr \<lparr>gamma = gam, s0 = (if a = 0 then 1 else a), s1 = 1, d0 = 0, d1 = 0\<rparr>"
  by (simp add: scaling_def qtype_scale_def adjust_absent_def)

lemma ncols_square: "square A \<Longrightarrow> ncols A = length A"
  by (cases A) (simp_all add: ncols_def square_def)

lemma square_parts:
  assumes "square W"
  shows "square (pos_part W)" and "square (neg_part W)"
  using assms by (simp_all add: square_def pos_part_def neg_part_def list_all_iff)

lemma wf_level_of:
  assumes "square A" and "square B" and "length B = length A"
  shows "wf_level (length A) (level_of A B)"
  using assms
  by (simp add: wf_level_def level_of_def np_sum_axis0_def ncols_square) (simp add: square_def)

lemma wf_modules_singletons:
  assumes "wf_level n L"
  shows "wf_modules n (singletons n L)"
  using assms
  by (auto simp: wf_level_def wf_modules_def singletons_def np_arange1_def list_all_iff)

lemma still_node_step:
  assumes z: "d0 C = 0" "d1 C = 0" and wm: "wf_modules n (snd fM)" and u: "u < n"
  shows "node_step C L u fM = fM"
proof -
  let ?M = "snd fM"
  let ?dQ = "dQ_vec C L ?M u (m ?M ! u - 1)"
  have len: "length ?dQ = n" by (rule dQ_vec_length [OF wm u])
  have "set ?dQ \<subseteq> insert 0 (set (map2 (\<lambda>x y. d0 C * x - d1 C * y)
           (dQ0_vec C L ?M u (m ?M ! u - 1)) (dQ1_vec C L ?M u (m ?M ! u - 1))))"
    unfolding dQ_vec_def by (rule set_update_subset_insert)
  also have "\<dots> \<subseteq> {0}" using z by auto
  finally have sub: "set ?dQ \<subseteq> {0}" .
  moreover have "set ?dQ \<noteq> {}" using len u by auto
  ultimately have "set ?dQ = {0}" using subset_singletonD by fastforce
  then have "np_max ?dQ = 0" by (simp add: np_max_def)
  then show ?thesis using tol_pos by (simp add: node_step_def Let_def)
qed

lemma still_pass:
  assumes z: "d0 C = 0" "d1 C = 0" and wm: "wf_modules n M" and p: "\<forall>u\<in>set p. u < n"
  shows "fold (node_step C L) p (f, M) = (f, M)"
  using p
proof (induction p)
  case Nil
  then show ?case by simp
next
  case (Cons u p)
  have "node_step C L u (f, M) = (f, M)"
    using still_node_step [OF z, of n "(f, M)" u L] wm Cons.prems by simp
  then show ?case using Cons by simp
qed

lemma still_pass_loop:
  assumes z: "d0 C = 0" "d1 C = 0" and wm: "wf_modules n M" and ir: "in_range perm"
  shows "pass_loop perm C L n 0 g M = (Inr (M, 1), snd (perm g n))"
proof -
  obtain p g1 where pg: "perm g n = (p, g1)" by (cases "perm g n")
  have "\<forall>u\<in>set p. u < n" using ir pg unfolding in_range_def by (metis fst_conv)
  then have "one_pass C L p M = (False, M)"
    unfolding one_pass_def by (rule still_pass [OF z wm])
  then show ?thesis using pg by (subst pass_loop.simps) simp
qed

lemma renumber_arange: "renumber (np_arange1 n) = np_arange1 n"
proof -
  let ?a = "map Suc [0..<n]"
  have d: "distinct ?a" by (simp add: distinct_map)
  have s: "sorted ?a" by (simp add: sorted_map sorted_wrt_iff_nth_less)
  have u: "sort (remdups ?a) = ?a"
    using d s by (simp add: distinct_remdups_id sorted_sort_id)
  have "map (\<lambda>x. index_of x ?a) ?a = [0..<n]"
  proof (rule nth_equalityI)
    show "length (map (\<lambda>x. index_of x ?a) ?a) = length [0..<n]" by simp
  next
    fix i assume "i < length (map (\<lambda>x. index_of x ?a) ?a)"
    then have i: "i < length ?a" by simp
    then have "index_of (?a ! i) ?a = i" using d by (rule index_of_nth [rotated])
    then show "map (\<lambda>x. index_of x ?a) ?a ! i = [0..<n] ! i" using i by simp
  qed
  then show ?thesis
    unfolding renumber_def np_unique_inverse_def np_arange1_def u by simp
qed

lemma relabel_arange:
  "relabel n (np_arange1 n) (np_arange1 n) (replicate n 0) = np_arange1 n"
proof (rule nth_equalityI)
  show "length (relabel n (np_arange1 n) (np_arange1 n) (replicate n 0)) = length (np_arange1 n)"
    by (simp add: length_relabel np_arange1_def)
next
  fix i assume "i < length (relabel n (np_arange1 n) (np_arange1 n) (replicate n 0))"
  then have i: "i < n" by (simp add: length_relabel np_arange1_def)
  then show "relabel n (np_arange1 n) (np_arange1 n) (replicate n 0) ! i = np_arange1 n ! i"
    using relabel_nth [of "replicate n 0" "np_arange1 n" i n "np_arange1 n"]
    by (simp add: np_arange1_def)
qed

lemma level_q_zero: "d0 C = 0 \<Longrightarrow> d1 C = 0 \<Longrightarrow> level_q C A B = 0"
  by (simp add: level_q_def Let_def)

lemma still_level_finish:
  assumes z: "d0 C = 0" "d1 C = 0" and n: "0 < n"
  shows "\<exists>A B k. level_finish C n (Suc 0)
           \<lparr>W0 = X, W1 = Y, nh = n, ci = [None, Some (np_arange1 n)], q = [- 1, 0]\<rparr>
           (singletons n L)
         = Inr \<lparr>W0 = A, W1 = B, nh = k,
                ci = [None, Some (np_arange1 n), Some (np_arange1 n)], q = [- 1, 0, 0]\<rparr>"
proof -
  have ne: "np_arange1 n \<noteq> []" using n by (simp add: np_arange1_def)
  show ?thesis
    using ne by (simp add: level_finish_def Let_def singletons_def renumber_arange relabel_arange
        level_q_zero [OF z])
qed

text \<open>
  C9. For a square matrix with at least one node and no negative entry, every \<open>gamma\<close> and
  every seed that \<open>np.random.seed\<close> accepts, \<open>qtype = 'neg'\<close> runs as follows. The total
  \<open>s1\<close> of the negative weights is 0, so \<open>d1 = 1 / s1\<close> is a division by zero: in numpy
  its value is \<open>inf\<close>, with a warning and no exception; here it is an arbitrary \<open>z\<close>.
  The adjustment \<open>if not s1: s1 = 1; d1 = 0\<close> overwrites it: whatever \<open>z\<close> is, the constants
  of the run are \<open>s1 = 1\<close>, \<open>d1 = 0\<close>, \<open>d0 = 0\<close> (by the variant) and \<open>s0\<close> the total of the
  positive weights, or 1 when that is 0. These are the constants of the model
  (\<open>scaling\<close>), and with them every later division, by \<open>s0\<close> or by \<open>s1\<close>, is by a number
  other than 0. Every delta is then 0, no node moves, the first level has value 0 and
  the loop stops: the function returns a value, every node in its own community and
  \<open>Q = 0\<close>.
\<close>

theorem negative_only_zero:
  assumes ir: "in_range (permutation R)" and sq: "square W" and ne: "W \<noteq> []" and nn: "nonneg W"
    and vs: "valid_seed seed"
  shows "np_sum (neg_part W) = 0
         \<and> scaling_with z gam ''neg'' (np_sum (pos_part W)) (np_sum (neg_part W))
             = Inr \<lparr>gamma = gam,
                    s0 = (if np_sum (pos_part W) = 0 then 1 else np_sum (pos_part W)),
                    s1 = 1, d0 = 0, d1 = 0\<rparr>
         \<and> scaling gam ''neg'' (np_sum (pos_part W)) (np_sum (neg_part W))
             = Inr \<lparr>gamma = gam,
                    s0 = (if np_sum (pos_part W) = 0 then 1 else np_sum (pos_part W)),
                    s1 = 1, d0 = 0, d1 = 0\<rparr>
         \<and> fst (modularity_louvain_und_sign R W gam ''neg'' seed e g0)
             = Inr (np_arange1 (length W), 0)"
proof -
  let ?n = "length W"
  let ?g = "seeded R seed e"
  let ?C = "\<lparr>gamma = gam, s0 = (if np_sum (pos_part W) = 0 then 1 else np_sum (pos_part W)),
             s1 = 1, d0 = 0, d1 = 0\<rparr>"
  let ?H = "\<lparr>W0 = pos_part W, W1 = neg_part W, nh = ?n,
             ci = [None, Some (np_arange1 ?n)], q = [- 1, 0]\<rparr>"
  let ?L = "level_of (pos_part W) (neg_part W)"
  have n: "0 < ?n" using ne by simp
  have z: "d0 ?C = 0" "d1 ?C = 0" by simp_all
  have sc: "scaling gam ''neg'' (np_sum (pos_part W)) (np_sum (neg_part W)) = Inr ?C"
    by (simp add: neg_part_nonneg [OF nn] scaling_neg_zero)
  have "wf_level (length (pos_part W)) ?L"
    using square_parts [OF sq] by (intro wf_level_of) (simp_all add: pos_part_def neg_part_def)
  then have wl: "wf_level ?n ?L" by (simp add: pos_part_def)
  have wm: "wf_modules ?n (singletons ?n ?L)" by (rule wf_modules_singletons [OF wl])
  have pl: "pass_loop (permutation R) ?C ?L ?n 0 ?g (singletons ?n ?L)
              = (Inr (singletons ?n ?L, 1), snd (permutation R ?g ?n))"
    by (rule still_pass_loop [OF z wm ir])
  from still_level_finish [OF z n, where X = "pos_part W" and Y = "neg_part W" and L = ?L] obtain A B k where
    lf: "level_finish ?C ?n (Suc 0) ?H (singletons ?n ?L)
         = Inr \<lparr>W0 = A, W1 = B, nh = k,
                ci = [None, Some (np_arange1 ?n), Some (np_arange1 ?n)], q = [- 1, 0, 0]\<rparr>"
    by blast
  let ?H1 = "\<lparr>W0 = A, W1 = B, nh = k,
                ci = [None, Some (np_arange1 ?n), Some (np_arange1 ?n)], q = [- 1, 0, 0]\<rparr>"
  have lb: "level_body R ?C ?n (Suc 0) ?g ?H = (Inr ?H1, snd (permutation R ?g ?n))"
    by (simp add: level_body_def Let_def pl lf)
  have a: "hier_loop R ?C ?n (Suc 0) ?g ?H = hier_loop R ?C ?n 2 (snd (permutation R ?g ?n)) ?H1"
    by (subst hier_loop.simps) (simp add: lb tol_def numeral_2_eq_2 [symmetric])
  have b: "hier_loop R ?C ?n 2 (snd (permutation R ?g ?n)) ?H1
             = (Inr (2, ?H1), snd (permutation R ?g ?n))"
    by (subst hier_loop.simps) (simp add: tol_def)
  have "louvain_hierarchy R W gam ''neg'' seed e g0 = hier_loop R ?C ?n (Suc 0) ?g ?H"
    using vs by (simp add: louvain_hierarchy_def np_random_seed_def Let_def sc)
  then have "louvain_hierarchy R W gam ''neg'' seed e g0
               = (Inr (2, ?H1), snd (permutation R ?g ?n))"
    by (simp only: a b)
  then have run: "fst (modularity_louvain_und_sign R W gam ''neg'' seed e g0)
                    = Inr (np_arange1 (length W), 0)"
    by (simp add: modularity_louvain_und_sign_def renumber_arange)
  have zero: "np_sum (neg_part W) = 0" by (rule neg_part_nonneg [OF nn])
  have "scaling_with z gam ''neg'' (np_sum (pos_part W)) (np_sum (neg_part W))
          = scaling gam ''neg'' (np_sum (pos_part W)) (np_sum (neg_part W))"
    by (rule division_by_zero_overwritten [OF np_sum_parts_nonneg])
  then have scz: "scaling_with z gam ''neg'' (np_sum (pos_part W)) (np_sum (neg_part W)) = Inr ?C"
    by (simp only: sc)
  show ?thesis by (intro conjI zero scz sc run)
qed

theorem negative_only_zero_witness:
  "in_range (permutation id_random) \<and> square pair_graph \<and> pair_graph \<noteq> [] \<and> nonneg pair_graph
   \<and> valid_seed (Some 3)
   \<and> np_sum (neg_part pair_graph) = 0
   \<and> scaling_with 7 2 ''neg'' (np_sum (pos_part pair_graph)) (np_sum (neg_part pair_graph))
        = Inr \<lparr>gamma = 2, s0 = 2, s1 = 1, d0 = 0, d1 = 0\<rparr>
   \<and> scaling 2 ''neg'' (np_sum (pos_part pair_graph)) (np_sum (neg_part pair_graph))
        = Inr \<lparr>gamma = 2, s0 = 2, s1 = 1, d0 = 0, d1 = 0\<rparr>
   \<and> fst (modularity_louvain_und_sign id_random pair_graph 2 ''neg'' (Some 3) 5 7)
        = Inr (np_arange1 (length pair_graph), 0)
   \<and> np_arange1 (length pair_graph) = [1, 2]"
proof -
  have sq: "square pair_graph" and nn: "nonneg pair_graph" by code_simp+
  have ne: "pair_graph \<noteq> []" by (simp add: pair_graph_def)
  have l: "np_arange1 (length pair_graph) = [1, 2]" by code_simp
  have v: "valid_seed (Some 3)" by (simp add: valid_seed_def)
  have p: "np_sum (pos_part pair_graph) = 2" by code_simp
  note r = negative_only_zero [OF in_range_id_random sq ne nn v, where z = 7 and gam = 2
      and e = 5 and ?g0.0 = 7]
  have a: "np_sum (neg_part pair_graph) = 0" by (rule r [THEN conjunct1])
  have b: "scaling_with 7 2 ''neg'' (np_sum (pos_part pair_graph)) (np_sum (neg_part pair_graph))
        = Inr \<lparr>gamma = 2, s0 = 2, s1 = 1, d0 = 0, d1 = 0\<rparr>"
    using r [THEN conjunct2, THEN conjunct1] by (simp add: p)
  have c: "scaling 2 ''neg'' (np_sum (pos_part pair_graph)) (np_sum (neg_part pair_graph))
        = Inr \<lparr>gamma = 2, s0 = 2, s1 = 1, d0 = 0, d1 = 0\<rparr>"
    using r [THEN conjunct2, THEN conjunct2, THEN conjunct1] by (simp add: p)
  have d: "fst (modularity_louvain_und_sign id_random pair_graph 2 ''neg'' (Some 3) 5 7)
        = Inr (np_arange1 (length pair_graph), 0)"
    by (rule r [THEN conjunct2, THEN conjunct2, THEN conjunct2])
  show ?thesis by (intro conjI in_range_id_random sq ne nn v l a b c d)
qed



end
